theory Spec2Isabelle
  imports Complex_Main "HOL-Library.AList" "HOL-Library.Multiset"
begin

section \<open>Data model\<close>

text \<open>
  Every failure of the gateway core is a JavaScript \<open>Error\<close> that carries a message; the
  messages are what tells the failures apart. Each fixed message of the source is one
  constructor, the interpolated values are its arguments:
  \<^item> \<open>NoInstances\<close>: thrown by the load balancer on an empty candidate array;
  \<^item> \<open>NoOnlineInstances\<close>: thrown by the load balancer when no candidate is online;
  \<^item> \<open>ServerNotFound name known\<close>: thrown by \<open>getServer\<close>, with the registered names;
  \<^item> \<open>ServerUnavailable name\<close>: thrown by \<open>executeTool\<close> when the handle is not online;
  \<^item> \<open>HealthCheckFailed\<close>: the fixed text stored when a probe answers \<open>false\<close>;
  \<^item> \<open>Other text\<close>: any other message, such as one raised by a backend.
\<close>

datatype message =
    NoInstances
  | NoOnlineInstances
  | ServerNotFound string "string list"
  | ServerUnavailable string
  | HealthCheckFailed
  | Other string

text \<open>
  \<open>ServerStatus\<close> of the type declarations. A \<open>Date\<close> is its millisecond timestamp, a
  \<open>number\<close> that counts requests or milliseconds is an integer, an optional property is
  an \<open>option\<close>.
\<close>

record load_info =
  activeRequests :: int
  totalRequests :: int

record ServerStatus =
  online :: bool
  lastUpdate :: int
  responseTime :: "int option"
  error :: "message option"
  load :: "load_info option"

text \<open>
  A service handle (\<open>IMCPServer\<close>) is an object owned by whoever registers it. The core
  holds a reference, of type \<open>'h\<close> here, and learns about the object only through its
  three methods. What the methods answer while one operation of the core runs is an
  argument of that operation: \<open>getStatus :: 'h \<Rightarrow> ServerStatus\<close> and so on. A promise
  either resolves with a value or rejects with an error.
\<close>

datatype 'a settled = Resolved 'a | Rejected message

text \<open>
  Reading an array at an index: JavaScript answers \<open>undefined\<close> outside the array, which
  is \<open>None\<close> here.
\<close>

definition js_index :: "'a list \<Rightarrow> int \<Rightarrow> 'a option" where
  "js_index xs i = (if 0 \<le> i \<and> i < int (length xs) then Some (xs ! nat i) else None)"

section \<open>Load balancer\<close>

text \<open>
  \<open>LoadBalancer\<close> and \<open>LoadBalancerService\<close> hold the same two fields and the same
  selection code. The cursor starts at zero and only counts up by one, so it is a
  natural number (a JavaScript number counts exactly up to \<open>2^53\<close>).
\<close>

datatype LoadBalancingStrategy = ROUND_ROBIN | RANDOM | LEAST_CONNECTIONS

record LoadBalancer =
  strategy :: LoadBalancingStrategy
  roundRobinIndex :: nat

definition selectRoundRobin ::
  "LoadBalancer \<Rightarrow> 'h list \<Rightarrow> (message + 'h option) \<times> LoadBalancer" where
  "selectRoundRobin lb servers =
     (if length servers = 0 then (Inl NoInstances, lb)
      else (Inr (js_index servers (int (roundRobinIndex lb mod length servers))),
            lb\<lparr>roundRobinIndex := roundRobinIndex lb + 1\<rparr>))"

text \<open>
  \<open>selectRandom\<close> takes the value of \<open>Math.random()\<close> as its argument \<open>rnd\<close>.
\<close>

definition selectRandom :: "real \<Rightarrow> 'h list \<Rightarrow> message + 'h option" where
  "selectRandom rnd servers =
     (if length servers = 0 then Inl NoInstances
      else Inr (js_index servers \<lfloor>rnd * real (length servers)\<rfloor>))"

text \<open>
  \<open>getStatus().load?.activeRequests || 0\<close>: a missing \<open>load\<close> counts as zero, and so does
  a zero.
\<close>

definition connections :: "('h \<Rightarrow> ServerStatus) \<Rightarrow> 'h \<Rightarrow> int" where
  "connections getStatus server =
     (case load (getStatus server) of
        None \<Rightarrow> 0
      | Some l \<Rightarrow> if activeRequests l = 0 then 0 else activeRequests l)"

text \<open>
  \<open>servers.reduce((least, current) => ...)\<close> has no initial value: it starts from the
  first element and visits the others from left to right.
\<close>

definition selectLeastConnections ::
  "('h \<Rightarrow> ServerStatus) \<Rightarrow> 'h list \<Rightarrow> message + 'h option" where
  "selectLeastConnections getStatus servers =
     (case servers of
        [] \<Rightarrow> Inl NoInstances
      | first # others \<Rightarrow>
          Inr (Some (foldl (\<lambda>least current.
                 if connections getStatus current < connections getStatus least
                 then current else least) first others)))"

text \<open>
  \<open>selectServer\<close> filters first and then dispatches on the policy. The enumeration has
  three values, so the \<open>default\<close> branch of the \<open>switch\<close> is never taken.
\<close>

definition selectServer ::
  "('h \<Rightarrow> ServerStatus) \<Rightarrow> real \<Rightarrow> LoadBalancer \<Rightarrow> 'h list
     \<Rightarrow> (message + 'h option) \<times> LoadBalancer" where
  "selectServer getStatus rnd lb servers =
     (if length servers = 0 then (Inl NoInstances, lb)
      else
        let availableServers = filter (\<lambda>server. online (getStatus server)) servers in
        if length availableServers = 0 then (Inl NoOnlineInstances, lb)
        else
          (case strategy lb of
             ROUND_ROBIN \<Rightarrow> selectRoundRobin lb availableServers
           | RANDOM \<Rightarrow> (selectRandom rnd availableServers, lb)
           | LEAST_CONNECTIONS \<Rightarrow> (selectLeastConnections getStatus availableServers, lb)))"

definition setStrategy :: "LoadBalancingStrategy \<Rightarrow> LoadBalancer \<Rightarrow> LoadBalancer" where
  "setStrategy s lb = lb\<lparr>strategy := s, roundRobinIndex := 0\<rparr>"

text \<open>
  Consecutive calls of \<open>selectServer\<close> on the same candidates, whose statuses do not
  change in between. There is one call for each element of \<open>rnds\<close>, the values that
  \<open>Math.random()\<close> would give to these calls; the selections are collected in call order.
\<close>

fun selectMany ::
  "('h \<Rightarrow> ServerStatus) \<Rightarrow> real list \<Rightarrow> LoadBalancer \<Rightarrow> 'h list
     \<Rightarrow> (message + 'h option) list \<times> LoadBalancer" where
  "selectMany getStatus [] lb servers = ([], lb)"
| "selectMany getStatus (rnd # rnds) lb servers =
     (case selectServer getStatus rnd lb servers of
        (x, lb') \<Rightarrow>
          (case selectMany getStatus rnds lb' servers of
             (xs, lb'') \<Rightarrow> (x # xs, lb'')))"

section \<open>Registry\<close>

text \<open>
  \<open>ServerRegistryService\<close> owns two \<open>Map\<close>s keyed by service name. A JavaScript \<open>Map\<close>
  keeps its entries in insertion order, \<open>set\<close> on a present key replaces the value in
  place and on an absent key appends, \<open>delete\<close> removes the entry: an association list
  with \<open>AList.update\<close>, \<open>AList.delete\<close> and \<open>map_of\<close>.
\<close>

record 'h ServerRegistry =
  servers :: "(string \<times> 'h) list"
  serverStatuses :: "(string \<times> ServerStatus) list"

definition emptyRegistry :: "'h ServerRegistry" where
  "emptyRegistry = \<lparr>servers = [], serverStatuses = []\<rparr>"

text \<open>
  A handle is foreign code, so its \<open>getStatus()\<close> either answers a status or throws:
  \<open>Inr status\<close> or \<open>Inl err\<close>. \<open>register\<close> stores the handle first and asks for its status
  afterwards; when \<open>getStatus()\<close> throws, the error leaves \<open>register\<close> with the handle
  stored and no status written. The object that \<open>getStatus()\<close> answers is stored as it
  is, not a copy of it; the model holds its content at that moment. The result is the
  error thrown, if any, and the registry afterwards.
\<close>

definition register ::
  "('h \<Rightarrow> message + ServerStatus) \<Rightarrow> string \<Rightarrow> 'h \<Rightarrow> 'h ServerRegistry
     \<Rightarrow> message option \<times> 'h ServerRegistry" where
  "register getStatus name server reg =
     (let stored = reg\<lparr>servers := AList.update name server (servers reg)\<rparr> in
      case getStatus server of
        Inl err \<Rightarrow> (Some err, stored)
      | Inr status \<Rightarrow>
          (None,
           stored\<lparr>serverStatuses := AList.update name status (serverStatuses stored)\<rparr>))"

definition unregister :: "string \<Rightarrow> 'h ServerRegistry \<Rightarrow> 'h ServerRegistry" where
  "unregister name reg =
     (if map_of (servers reg) name \<noteq> None
      then reg\<lparr>servers := AList.delete name (servers reg),
               serverStatuses := AList.delete name (serverStatuses reg)\<rparr>
      else reg)"

definition getServerNames :: "'h ServerRegistry \<Rightarrow> string list" where
  "getServerNames reg = map fst (servers reg)"

definition getServer :: "string \<Rightarrow> 'h ServerRegistry \<Rightarrow> message + 'h" where
  "getServer name reg =
     (case map_of (servers reg) name of
        None \<Rightarrow> Inl (ServerNotFound name (getServerNames reg))
      | Some server \<Rightarrow> Inr server)"

definition getServerStatus :: "string \<Rightarrow> 'h ServerRegistry \<Rightarrow> ServerStatus option" where
  "getServerStatus name reg = map_of (serverStatuses reg) name"

definition updateServerStatus ::
  "string \<Rightarrow> ServerStatus \<Rightarrow> 'h ServerRegistry \<Rightarrow> 'h ServerRegistry" where
  "updateServerStatus name status reg =
     reg\<lparr>serverStatuses := AList.update name status (serverStatuses reg)\<rparr>"

text \<open>
  What happens outside the registry while one \<open>executeTool\<close> runs:
  \<^item> \<open>startTime\<close>, \<open>endTime\<close>: the two readings of the clock;
  \<^item> \<open>getStatus_try\<close>: what the handle's \<open>getStatus()\<close> does in the \<open>try\<close> block, before the
    call: it throws or it answers a status object, whose content at that moment is
    given;
  \<^item> \<open>server_executeTool\<close>: what the handle's \<open>executeTool\<close> settles to;
  \<^item> \<open>status_at_copy\<close>: the content of that same status object when the registry copies
    it, after the call has resolved. A handle that answers a fresh snapshot leaves the
    object as it was; a handle that answers its own status object and updates it in
    place does not;
  \<^item> \<open>getStatus_catch\<close>: what the handle's \<open>getStatus()\<close> does in the \<open>catch\<close> block; the
    object it answers is copied at once.

  A cached status is described by its content when it is written. The copies are
  shallow: a handle that keeps the \<open>load\<close> object of a status it answered can still
  change that object afterwards.
\<close>

record ('h, 'p, 'r) call_env =
  startTime :: int
  endTime :: int
  getStatus_try :: "'h \<Rightarrow> message + ServerStatus"
  server_executeTool :: "'h \<Rightarrow> string \<Rightarrow> 'p \<Rightarrow> 'r settled"
  status_at_copy :: "'h \<Rightarrow> ServerStatus"
  getStatus_catch :: "'h \<Rightarrow> message + ServerStatus"

text \<open>
  The \<open>catch\<close> block of \<open>executeTool\<close>, entered with the error \<open>err\<close>: ask the handle for
  its status, store it with \<open>online\<close> and \<open>error\<close> replaced, then throw \<open>err\<close> again. When
  \<open>getStatus()\<close> throws here, its error leaves the block instead and nothing is stored.
  The result is the error that leaves the block and the registry afterwards.
\<close>

definition executeTool_catch ::
  "('h, 'p, 'r) call_env \<Rightarrow> string \<Rightarrow> 'h \<Rightarrow> message \<Rightarrow> 'h ServerRegistry
     \<Rightarrow> message \<times> 'h ServerRegistry" where
  "executeTool_catch env serverName server err reg =
     (case getStatus_catch env server of
        Inl err' \<Rightarrow> (err', reg)
      | Inr status \<Rightarrow>
          (err, updateServerStatus serverName (status\<lparr>online := False, error := Some err\<rparr>) reg))"

text \<open>
  \<open>executeTool\<close> is an \<open>async\<close> function with one \<open>await\<close>, on the handle's
  \<open>executeTool\<close>. Up to there it runs without interruption; there it is suspended, other
  operations of the registry can run, and it goes on when the handle's call has settled.
  A suspended call holds on to what it needs for the rest: the environment, the service
  name, the handle it resolved, the tool name and the parameters.
\<close>

record ('h, 'p, 'r) pending_call =
  its_env :: "('h, 'p, 'r) call_env"
  its_serverName :: string
  its_server :: 'h
  its_toolName :: string
  its_params :: 'p

datatype ('h, 'p, 'r) begun = Thrown message | Suspended "('h, 'p, 'r) pending_call"

text \<open>
  The first part, up to the \<open>await\<close>. \<open>getServer\<close> is outside the \<open>try\<close> block, so its error
  leaves the registry as it is. An error of \<open>getStatus()\<close> and the refusal of an offline
  handle are thrown inside the \<open>try\<close> block and go through the \<open>catch\<close> block. The third
  component lists the calls of the handle's \<open>executeTool\<close> that were made (handle, tool
  name and parameters).
\<close>

definition executeTool_begin ::
  "('h, 'p, 'r) call_env \<Rightarrow> string \<Rightarrow> string \<Rightarrow> 'p \<Rightarrow> 'h ServerRegistry
     \<Rightarrow> ('h, 'p, 'r) begun \<times> 'h ServerRegistry \<times> ('h \<times> string \<times> 'p) list" where
  "executeTool_begin env serverName toolName params reg =
     (case getServer serverName reg of
        Inl err \<Rightarrow> (Thrown err, reg, [])
      | Inr server \<Rightarrow>
          (case getStatus_try env server of
             Inl err \<Rightarrow>
               (case executeTool_catch env serverName server err reg of
                  (err', reg') \<Rightarrow> (Thrown err', reg', []))
           | Inr status \<Rightarrow>
               if \<not> online status
               then
                 (case executeTool_catch env serverName server (ServerUnavailable serverName) reg of
                    (err', reg') \<Rightarrow> (Thrown err', reg', []))
               else
                 (Suspended
                    \<lparr>its_env = env, its_serverName = serverName, its_server = server,
                     its_toolName = toolName, its_params = params\<rparr>,
                  reg,
                  [(server, toolName, params)])))"

text \<open>
  The second part, from the \<open>await\<close> on, run on the registry as it is by then. When the
  handle's call resolved, the status object read in the first part is copied with the
  response time and stored, whether or not the name is still registered. When it
  rejected, the \<open>catch\<close> block runs.
\<close>

definition executeTool_resume ::
  "('h, 'p, 'r) pending_call \<Rightarrow> 'h ServerRegistry \<Rightarrow> (message + 'r) \<times> 'h ServerRegistry" where
  "executeTool_resume call reg =
     (let env = its_env call; serverName = its_serverName call; server = its_server call in
      case server_executeTool env server (its_toolName call) (its_params call) of
        Resolved result \<Rightarrow>
          let responseTime = endTime env - startTime env in
          (Inr result,
           updateServerStatus serverName
             ((status_at_copy env server)\<lparr>responseTime := Some responseTime\<rparr>) reg)
      | Rejected err \<Rightarrow>
          (case executeTool_catch env serverName server err reg of
             (err', reg') \<Rightarrow> (Inl err', reg')))"

text \<open>
  A call of \<open>executeTool\<close> during which no other operation of the registry runs: the
  second part follows the first at once. It answers the result or the error thrown,
  the registry afterwards, and the calls of the handle's \<open>executeTool\<close> it made.
\<close>

definition executeTool ::
  "('h, 'p, 'r) call_env \<Rightarrow> string \<Rightarrow> string \<Rightarrow> 'p \<Rightarrow> 'h ServerRegistry
     \<Rightarrow> (message + 'r) \<times> 'h ServerRegistry \<times> ('h \<times> string \<times> 'p) list" where
  "executeTool env serverName toolName params reg =
     (case executeTool_begin env serverName toolName params reg of
        (Thrown err, reg', invoked) \<Rightarrow> (Inl err, reg', invoked)
      | (Suspended call, reg', invoked) \<Rightarrow>
          (case executeTool_resume call reg' of
             (outcome, reg'') \<Rightarrow> (outcome, reg'', invoked)))"

text \<open>
  One callback of \<open>performHealthCheck\<close>, for the entry \<open>(name, server)\<close>. \<open>healthCheck\<close>
  says what each handle's probe settles to and \<open>newDate\<close> the time at which the entry's
  status is written. The callback catches whatever the probe raises, so it always
  completes; the names probed are collected beside the statuses.
\<close>

definition checkServer ::
  "('h \<Rightarrow> bool settled) \<Rightarrow> (string \<Rightarrow> int) \<Rightarrow> string \<times> 'h
     \<Rightarrow> (string \<times> ServerStatus) list \<times> string list
     \<Rightarrow> (string \<times> ServerStatus) list \<times> string list" where
  "checkServer healthCheck newDate entry acc =
     (case entry of (name, server) \<Rightarrow>
      (case acc of (statuses, probed) \<Rightarrow>
        (case healthCheck server of
           Resolved isHealthy \<Rightarrow>
             (case map_of statuses name of
                None \<Rightarrow> (statuses, probed @ [name])
              | Some currentStatus \<Rightarrow>
                  (AList.update name
                     (currentStatus\<lparr>online := isHealthy, lastUpdate := newDate name,
                        error := if isHealthy then None else Some HealthCheckFailed\<rparr>)
                     statuses,
                   probed @ [name]))
         | Rejected err \<Rightarrow>
             (case map_of statuses name of
                None \<Rightarrow> (statuses, probed @ [name])
              | Some currentStatus \<Rightarrow>
                  (AList.update name
                     (currentStatus\<lparr>online := False, lastUpdate := newDate name,
                        error := Some err\<rparr>)
                     statuses,
                   probed @ [name])))))"

text \<open>
  One tick of the probe loop: a callback for every entry of \<open>servers\<close>, joined by
  \<open>Promise.allSettled\<close>. Each callback reads and writes the status of its own name only.
\<close>

definition performHealthCheck ::
  "('h \<Rightarrow> bool settled) \<Rightarrow> (string \<Rightarrow> int) \<Rightarrow> 'h ServerRegistry
     \<Rightarrow> 'h ServerRegistry \<times> string list" where
  "performHealthCheck healthCheck newDate reg =
     (case fold (checkServer healthCheck newDate) (servers reg) (serverStatuses reg, []) of
        (statuses, probed) \<Rightarrow> (reg\<lparr>serverStatuses := statuses\<rparr>, probed))"

text \<open>
  The registry at work: its two maps and the calls of \<open>executeTool\<close> that are suspended
  at their \<open>await\<close>. The operations are those that change it, each with what the handles
  do while it runs:
  \<^item> \<open>Register\<close> and \<open>Unregister\<close>;
  \<^item> \<open>ExecuteTool\<close>: a call of \<open>executeTool\<close> starts and runs up to its \<open>await\<close>, or to
    its end when it throws before;
  \<^item> \<open>Settle k\<close>: the handle's call of the \<open>k\<close>-th suspended call has settled and that
    call runs to its end (nothing happens when there is no such call);
  \<^item> \<open>HealthCheck\<close>: one tick of the probe loop.
  Operations that run between an \<open>ExecuteTool\<close> and its \<open>Settle\<close> run during the call.
\<close>

datatype ('h, 'p, 'r) operation =
    Register "'h \<Rightarrow> message + ServerStatus" string 'h
  | Unregister string
  | ExecuteTool "('h, 'p, 'r) call_env" string string 'p
  | Settle nat
  | HealthCheck "'h \<Rightarrow> bool settled" "string \<Rightarrow> int"

record ('h, 'p, 'r) system =
  registry :: "'h ServerRegistry"
  suspended :: "('h, 'p, 'r) pending_call list"

definition initial :: "('h, 'p, 'r) system" where
  "initial = \<lparr>registry = emptyRegistry, suspended = []\<rparr>"

fun step :: "('h, 'p, 'r) operation \<Rightarrow> ('h, 'p, 'r) system \<Rightarrow> ('h, 'p, 'r) system" where
  "step (Register getStatus name server) sys =
     sys\<lparr>registry := snd (register getStatus name server (registry sys))\<rparr>"
| "step (Unregister name) sys = sys\<lparr>registry := unregister name (registry sys)\<rparr>"
| "step (ExecuteTool env serverName toolName params) sys =
     (case executeTool_begin env serverName toolName params (registry sys) of
        (Thrown err, reg', invoked) \<Rightarrow> sys\<lparr>registry := reg'\<rparr>
      | (Suspended call, reg', invoked) \<Rightarrow>
          sys\<lparr>registry := reg', suspended := suspended sys @ [call]\<rparr>)"
| "step (Settle k) sys =
     (if k < length (suspended sys)
      then sys\<lparr>registry := snd (executeTool_resume (suspended sys ! k) (registry sys)),
               suspended := take k (suspended sys) @ drop (Suc k) (suspended sys)\<rparr>
      else sys)"
| "step (HealthCheck healthCheck newDate) sys =
     sys\<lparr>registry := fst (performHealthCheck healthCheck newDate (registry sys))\<rparr>"

definition run :: "('h, 'p, 'r) operation list \<Rightarrow> ('h, 'p, 'r) system \<Rightarrow> ('h, 'p, 'r) system" where
  "run ops sys = fold step ops sys"

text \<open>The cache holds a status for \<open>n\<close>, and that status is offline.\<close>

definition cached_offline :: "string \<Rightarrow> 'h ServerRegistry \<Rightarrow> bool" where
  "cached_offline n reg =
     (case getServerStatus n reg of None \<Rightarrow> False | Some status \<Rightarrow> \<not> online status)"

text \<open>
  An operation that can end an offline period of the service \<open>n\<close>: registering or
  unregistering the name, the end of a suspended call for it whose handle call
  resolved, or a probe tick in which a handle registered under the name answers
  \<open>true\<close>. The start of a call never does: before its \<open>await\<close>, \<open>executeTool\<close> writes a
  status only in its \<open>catch\<close> block.
\<close>

fun ends_offline :: "string \<Rightarrow> ('h, 'p, 'r) operation \<Rightarrow> ('h, 'p, 'r) system \<Rightarrow> bool" where
  "ends_offline n (Register getStatus name server) sys = (name = n)"
| "ends_offline n (Unregister name) sys = (name = n)"
| "ends_offline n (ExecuteTool env serverName toolName params) sys = False"
| "ends_offline n (Settle k) sys =
     (k < length (suspended sys) \<and> its_serverName (suspended sys ! k) = n \<and>
      (case fst (executeTool_resume (suspended sys ! k) (registry sys)) of
         Inl err \<Rightarrow> False
       | Inr result \<Rightarrow> True))"
| "ends_offline n (HealthCheck healthCheck newDate) sys =
     list_ex (\<lambda>entry. fst entry = n \<and> healthCheck (snd entry) = Resolved True)
       (servers (registry sys))"

text \<open>A run in which no operation ends an offline period of \<open>n\<close>.\<close>

fun stays_quiet :: "string \<Rightarrow> ('h, 'p, 'r) operation list \<Rightarrow> ('h, 'p, 'r) system \<Rightarrow> bool" where
  "stays_quiet n [] sys = True"
| "stays_quiet n (op # ops) sys = (\<not> ends_offline n op sys \<and> stays_quiet n ops (step op sys))"

section \<open>Scenarios\<close>

text \<open>
  Concrete handles, statuses and environments on which the theorems below are run.
  Handles are called by name (\<open>h1\<close>, \<open>h2\<close>, ...); parameters and results are JSON texts.
\<close>

definition idle_status :: ServerStatus where
  "idle_status =
     \<lparr>online = True, lastUpdate = 5, responseTime = None, error = None,
      load = Some \<lparr>activeRequests = 0, totalRequests = 0\<rparr>\<rparr>"

definition busy_status :: ServerStatus where
  "busy_status =
     \<lparr>online = True, lastUpdate = 5, responseTime = None, error = None,
      load = Some \<lparr>activeRequests = 3, totalRequests = 7\<rparr>\<rparr>"

definition light_status :: ServerStatus where
  "light_status =
     \<lparr>online = True, lastUpdate = 5, responseTime = None, error = None,
      load = Some \<lparr>activeRequests = 1, totalRequests = 9\<rparr>\<rparr>"

definition down_status :: ServerStatus where
  "down_status =
     \<lparr>online = False, lastUpdate = 5, responseTime = None, error = Some (Other ''down''),
      load = Some \<lparr>activeRequests = 0, totalRequests = 0\<rparr>\<rparr>"

text \<open>The idle status after its owner has counted one request in place.\<close>

definition counted_status :: ServerStatus where
  "counted_status =
     \<lparr>online = True, lastUpdate = 5, responseTime = None, error = None,
      load = Some \<lparr>activeRequests = 1, totalRequests = 1\<rparr>\<rparr>"

text \<open>
  A pool of four instances: \<open>h1\<close> has three active requests, \<open>h2\<close> and \<open>h4\<close> have one,
  \<open>h3\<close> is offline.
\<close>

definition pool_status :: "string \<Rightarrow> ServerStatus" where
  "pool_status h =
     (if h = ''h1'' then busy_status else if h = ''h3'' then down_status else light_status)"

definition all_down :: "string \<Rightarrow> ServerStatus" where
  "all_down h = down_status"

text \<open>What a handle's \<open>getStatus()\<close> does: it answers a status, or it throws.\<close>

definition report_idle :: "string \<Rightarrow> message + ServerStatus" where
  "report_idle h = Inr idle_status"

definition report_busy :: "string \<Rightarrow> message + ServerStatus" where
  "report_busy h = Inr busy_status"

definition report_down :: "string \<Rightarrow> message + ServerStatus" where
  "report_down h = Inr down_status"

definition report_throws :: "string \<Rightarrow> message + ServerStatus" where
  "report_throws h = Inl (Other ''status unavailable'')"

text \<open>The content of the status object when the registry copies it.\<close>

definition still_idle :: "string \<Rightarrow> ServerStatus" where
  "still_idle h = idle_status"

definition still_busy :: "string \<Rightarrow> ServerStatus" where
  "still_busy h = busy_status"

definition now_counted :: "string \<Rightarrow> ServerStatus" where
  "now_counted h = counted_status"

definition backend_ok :: "string \<Rightarrow> string \<Rightarrow> string \<Rightarrow> string settled" where
  "backend_ok h toolName params = Resolved ''done''"

definition backend_fails :: "string \<Rightarrow> string \<Rightarrow> string \<Rightarrow> string settled" where
  "backend_fails h toolName params = Rejected (Other ''boom'')"

text \<open>A call at time 1000 whose backend fails; the handle reports itself idle and online.\<close>

definition failing_call :: "(string, string, string) call_env" where
  "failing_call =
     \<lparr>startTime = 1000, endTime = 1010, getStatus_try = report_idle,
      server_executeTool = backend_fails, status_at_copy = still_idle,
      getStatus_catch = report_idle\<rparr>"

text \<open>A call that succeeds while the handle reports three active requests.\<close>

definition good_call :: "(string, string, string) call_env" where
  "good_call =
     \<lparr>startTime = 2000, endTime = 2040, getStatus_try = report_busy,
      server_executeTool = backend_ok, status_at_copy = still_busy,
      getStatus_catch = report_busy\<rparr>"

text \<open>A call that finds the handle reporting itself offline.\<close>

definition refused_call :: "(string, string, string) call_env" where
  "refused_call =
     \<lparr>startTime = 3000, endTime = 3001, getStatus_try = report_down,
      server_executeTool = backend_ok, status_at_copy = still_idle,
      getStatus_catch = report_down\<rparr>"

text \<open>
  A call that succeeds on a handle that answers its own status object, idle when it is
  read, and counts the request in that object while the call runs.
\<close>

definition counting_call :: "(string, string, string) call_env" where
  "counting_call =
     \<lparr>startTime = 5000, endTime = 5020, getStatus_try = report_idle,
      server_executeTool = backend_ok, status_at_copy = now_counted,
      getStatus_catch = report_idle\<rparr>"

text \<open>A call whose backend fails and whose handle then throws in \<open>getStatus()\<close>.\<close>

definition unreadable_call :: "(string, string, string) call_env" where
  "unreadable_call =
     \<lparr>startTime = 6000, endTime = 6010, getStatus_try = report_idle,
      server_executeTool = backend_fails, status_at_copy = still_idle,
      getStatus_catch = report_throws\<rparr>"

definition probe_raises :: "string \<Rightarrow> bool settled" where
  "probe_raises h = (if h = ''h1'' then Rejected (Other ''timeout'') else Resolved (h = ''h2''))"

definition probe_time :: "string \<Rightarrow> int" where
  "probe_time name = 4000"

text \<open>
  \<open>svc_registered\<close>: the service \<open>svc-a\<close> registered with handle \<open>h1\<close>, idle and online.
  \<open>svc_failed\<close>: the same after one call whose backend failed.
  \<open>three_registered\<close>: three services registered with handles \<open>h1\<close>, \<open>h2\<close> and \<open>h3\<close>.
\<close>

definition svc_registered :: "string ServerRegistry" where
  "svc_registered =
     registry (run [Register report_idle ''svc-a'' ''h1''
                      :: (string, string, string) operation] initial)"

definition svc_failed :: "string ServerRegistry" where
  "svc_failed =
     registry (run [Register report_idle ''svc-a'' ''h1'',
                    ExecuteTool failing_call ''svc-a'' ''op1'' ''{}'',
                    Settle 0] initial)"

definition three_registered :: "string ServerRegistry" where
  "three_registered =
     registry (run [Register report_idle ''svc-a'' ''h1'', Register report_idle ''svc-b'' ''h2'',
                    Register report_idle ''svc-c'' ''h3''
                      :: (string, string, string) operation] initial)"

text \<open>
  \<open>unregistered_during_call\<close>: \<open>svc-a\<close> is registered, a call for it starts and is
  suspended at its \<open>await\<close>, the service is unregistered, and then the handle's call
  resolves.
  \<open>register_unreadable\<close>: a handle is registered whose \<open>getStatus()\<close> throws.
\<close>

definition unregistered_during_call :: "(string, string, string) operation list" where
  "unregistered_during_call =
     [Register report_idle ''svc-a'' ''h1'',
      ExecuteTool good_call ''svc-a'' ''op1'' ''{}'',
      Unregister ''svc-a'',
      Settle 0]"

definition register_unreadable :: "(string, string, string) operation list" where
  "register_unreadable = [Register report_throws ''svc-a'' ''h1'']"

section \<open>Properties of the load balancer\<close>

lemmas scenario_defs =
  pool_status_def all_down_def report_idle_def report_busy_def report_down_def
  idle_status_def busy_status_def light_status_def down_status_def

subsection \<open>Round-robin\<close>

lemma selectServer_round_robin:
  assumes "strategy lb = ROUND_ROBIN"
    and "filter (\<lambda>server. online (getStatus server)) pool = avail"
    and "avail \<noteq> []"
  shows "selectServer getStatus rnd lb pool =
           (Inr (Some (avail ! (roundRobinIndex lb mod length avail))),
            lb\<lparr>roundRobinIndex := roundRobinIndex lb + 1\<rparr>)"
proof -
  have "pool \<noteq> []" using assms by auto
  then show ?thesis
    using assms by (simp add: selectServer_def selectRoundRobin_def js_index_def Let_def)
qed

lemma selectMany_round_robin:
  assumes "filter (\<lambda>server. online (getStatus server)) pool = avail"
    and "avail \<noteq> []"
  shows "strategy lb = ROUND_ROBIN \<Longrightarrow>
         selectMany getStatus rnds lb pool =
           (map (\<lambda>i. Inr (Some (avail ! ((roundRobinIndex lb + i) mod length avail))))
              [0..<length rnds],
            lb\<lparr>roundRobinIndex := roundRobinIndex lb + length rnds\<rparr>)"
proof (induction rnds arbitrary: lb)
  case Nil
  then show ?case by simp
next
  case (Cons rnd rnds)
  let ?lb = "lb\<lparr>roundRobinIndex := roundRobinIndex lb + 1\<rparr>"
  have s: "strategy ?lb = ROUND_ROBIN" using Cons.prems by simp
  show ?case
    using Cons.IH [OF s] selectServer_round_robin [OF Cons.prems assms]
    by (simp add: map_upt_Suc del: upt_Suc)
qed

lemma rotate_as_map:
  "xs \<noteq> [] \<Longrightarrow> map (\<lambda>i. xs ! ((c + i) mod length xs)) [0..<length xs] = rotate c xs"
  by (rule nth_equalityI) (simp_all add: nth_rotate add.commute)

lemma mset_rotate1_eq: "mset (rotate1 xs) = mset xs"
  by (cases xs) simp_all

lemma mset_rotate_eq: "mset (rotate n xs) = mset xs"
  by (induction n) (simp_all add: mset_rotate1_eq)

text \<open>
  Claim C5. Under the round-robin policy, let \<open>avail\<close> be the filtered online list of the
  candidates, of size \<open>N > 0\<close>, unchanged between calls. Then \<open>N\<close> consecutive calls of
  \<open>selectServer\<close> return the elements of \<open>avail\<close> read cyclically from the position of the
  cursor (\<open>rotate\<close>), which is a permutation of \<open>avail\<close>: each member is returned exactly
  once. The cursor has then advanced by \<open>N\<close>, and the next \<open>N\<close> calls return the same
  selections in the same order: the cycle has length \<open>N\<close>.
\<close>

theorem round_robin_cycle:
  assumes "strategy lb = ROUND_ROBIN"
    and "filter (\<lambda>server. online (getStatus server)) pool = avail"
    and "avail \<noteq> []"
    and "length rnds = length avail"
    and "length rnds' = length avail"
  shows "selectMany getStatus rnds lb pool =
           (map (\<lambda>s. Inr (Some s)) (rotate (roundRobinIndex lb) avail),
            lb\<lparr>roundRobinIndex := roundRobinIndex lb + length avail\<rparr>)
       \<and> mset (rotate (roundRobinIndex lb) avail) = mset avail
       \<and> fst (selectMany getStatus rnds'
                (lb\<lparr>roundRobinIndex := roundRobinIndex lb + length avail\<rparr>) pool) =
           map (\<lambda>s. Inr (Some s)) (rotate (roundRobinIndex lb) avail)"
proof -
  let ?lb = "lb\<lparr>roundRobinIndex := roundRobinIndex lb + length avail\<rparr>"
  have "selectMany getStatus rnds lb pool =
          (map (\<lambda>s. Inr (Some s))
             (map (\<lambda>i. avail ! ((roundRobinIndex lb + i) mod length avail)) [0..<length avail]),
           ?lb)"
    using selectMany_round_robin [OF assms(2,3,1), of rnds] assms(4) by (simp add: comp_def)
  then have first: "selectMany getStatus rnds lb pool =
      (map (\<lambda>s. Inr (Some s)) (rotate (roundRobinIndex lb) avail), ?lb)"
    using rotate_as_map [OF assms(3)] by simp
  have s: "strategy ?lb = ROUND_ROBIN" using assms(1) by simp
  have "fst (selectMany getStatus rnds' ?lb pool) =
          map (\<lambda>s. Inr (Some s))
             (map (\<lambda>i. avail ! ((roundRobinIndex ?lb + i) mod length avail)) [0..<length avail])"
    using selectMany_round_robin [OF assms(2,3) s, of rnds'] assms(5) by (simp add: comp_def)
  then have "fst (selectMany getStatus rnds' ?lb pool) =
      map (\<lambda>s. Inr (Some s)) (rotate (roundRobinIndex ?lb) avail)"
    using rotate_as_map [OF assms(3)] by simp
  moreover have "rotate (roundRobinIndex ?lb) avail = rotate (roundRobinIndex lb) avail"
    by (simp add: rotate_conv_mod [of "roundRobinIndex lb + length avail"] rotate_conv_mod [of "roundRobinIndex lb"])
  ultimately show ?thesis using first by (simp add: mset_rotate_eq)
qed

text \<open>
  The pool \<open>h1, h2, h3, h4\<close> with \<open>h3\<close> offline and the cursor at 4: three calls return
  \<open>h2, h4, h1\<close>, and so do the next three.
\<close>

theorem round_robin_cycle_witness:
  "selectMany pool_status [0, 0, 0] \<lparr>strategy = ROUND_ROBIN, roundRobinIndex = 4\<rparr> [''h1'', ''h2'', ''h3'', ''h4''] =
     ([Inr (Some ''h2''), Inr (Some ''h4''), Inr (Some ''h1'')], \<lparr>strategy = ROUND_ROBIN, roundRobinIndex = 7\<rparr>)
   \<and> mset [''h2'', ''h4'', ''h1''] = mset [''h1'', ''h2'', ''h4'']
   \<and> fst (selectMany pool_status [1 / 2, 0, 0] \<lparr>strategy = ROUND_ROBIN, roundRobinIndex = 7\<rparr>
          [''h1'', ''h2'', ''h3'', ''h4'']) =
       [Inr (Some ''h2''), Inr (Some ''h4''), Inr (Some ''h1'')]"
proof -
  have h1: "strategy \<lparr>strategy = ROUND_ROBIN, roundRobinIndex = 4\<rparr> = ROUND_ROBIN" by simp
  have h2: "filter (\<lambda>server. online (pool_status server)) [''h1'', ''h2'', ''h3'', ''h4''] = [''h1'', ''h2'', ''h4'']"
    by (simp add: scenario_defs)
  have h3: "[''h1'', ''h2'', ''h4''] \<noteq> []" by simp
  have h4: "length [0, 0, 0 :: real] = length [''h1'', ''h2'', ''h4'']" by simp
  have h5: "length [1 / 2, 0, 0 :: real] = length [''h1'', ''h2'', ''h4'']" by simp
  have r: "rotate 4 [''h1'', ''h2'', ''h4''] = [''h2'', ''h4'', ''h1'']" by (simp add: eval_nat_numeral)
  show ?thesis using round_robin_cycle [OF h1 h2 h3 h4 h5] by (simp add: r)
qed

subsection \<open>Least connections\<close>

lemma foldl_least:
  fixes c :: "'a \<Rightarrow> int"
  defines "pick \<equiv> (\<lambda>least current. if c current < c least then current else least)"
  shows "\<exists>before after. a # xs = before @ foldl pick a xs # after
           \<and> (\<forall>x\<in>set before. c (foldl pick a xs) < c x)
           \<and> (\<forall>x\<in>set after. c (foldl pick a xs) \<le> c x)"
proof (induction xs rule: rev_induct)
  case Nil
  have "[a] = [] @ foldl pick a [] # []" by simp
  then show ?case by (metis empty_iff list.set(1))
next
  case (snoc x xs)
  then obtain before after where split: "a # xs = before @ foldl pick a xs # after"
    and lt: "\<forall>y\<in>set before. c (foldl pick a xs) < c y"
    and le: "\<forall>y\<in>set after. c (foldl pick a xs) \<le> c y"
    by blast
  let ?r = "foldl pick a xs"
  show ?case
  proof (cases "c x < c ?r")
    case True
    then have r: "foldl pick a (xs @ [x]) = x" by (simp add: pick_def)
    have "\<forall>y\<in>set (a # xs). c x < c y"
    proof
      fix y assume "y \<in> set (a # xs)"
      then have "y \<in> set before \<or> y = ?r \<or> y \<in> set after" using split by auto
      then show "c x < c y" using lt le True by force
    qed
    moreover have "a # xs @ [x] = (a # xs) @ x # []" by simp
    ultimately show ?thesis unfolding r by (metis empty_iff list.set(1))
  next
    case False
    then have r: "foldl pick a (xs @ [x]) = ?r" by (simp add: pick_def)
    have "a # xs @ [x] = before @ ?r # (after @ [x])" using split by simp
    moreover have "\<forall>y\<in>set (after @ [x]). c ?r \<le> c y" using le False by auto
    ultimately show ?thesis unfolding r using lt by blast
  qed
qed

lemma selectServer_least:
  assumes "strategy lb = LEAST_CONNECTIONS"
    and "filter (\<lambda>server. online (getStatus server)) pool = avail"
    and "avail \<noteq> []"
  shows "\<exists>s before after.
           selectServer getStatus rnd lb pool = (Inr (Some s), lb)
           \<and> avail = before @ s # after
           \<and> (\<forall>x\<in>set before. connections getStatus s < connections getStatus x)
           \<and> (\<forall>x\<in>set after. connections getStatus s \<le> connections getStatus x)"
proof -
  obtain a xs where avail: "avail = a # xs" using assms(3) by (cases avail) auto
  let ?pick = "\<lambda>least current.
     if connections getStatus current < connections getStatus least then current else least"
  let ?s = "foldl ?pick a xs"
  have "pool \<noteq> []" using assms by auto
  then have sel: "selectServer getStatus rnd lb pool = (Inr (Some ?s), lb)"
    using assms avail
    by (simp add: selectServer_def selectLeastConnections_def Let_def)
  obtain before after where "a # xs = before @ ?s # after"
    and "\<forall>x\<in>set before. connections getStatus ?s < connections getStatus x"
    and "\<forall>x\<in>set after. connections getStatus ?s \<le> connections getStatus x"
    using foldl_least [of a xs "connections getStatus"] by blast
  then show ?thesis using sel avail by blast
qed

text \<open>
  Claim C6. Under the least-connections policy and for a non-empty filtered online list
  \<open>avail\<close>, \<open>selectServer\<close> returns a member \<open>s\<close> of \<open>avail\<close> whose number of active requests
  is the minimum over \<open>avail\<close>, and every member that comes before \<open>s\<close> in \<open>avail\<close> has
  strictly more: among the members that share the minimum, \<open>s\<close> is the first one
  encountered. The balancer's state is unchanged.
\<close>

theorem least_connections_first_minimum:
  assumes "strategy lb = LEAST_CONNECTIONS"
    and "filter (\<lambda>server. online (getStatus server)) pool = avail"
    and "avail \<noteq> []"
  shows "\<exists>s before after.
           selectServer getStatus rnd lb pool = (Inr (Some s), lb)
           \<and> avail = before @ s # after
           \<and> connections getStatus s = Min (connections getStatus ` set avail)
           \<and> (\<forall>x\<in>set before. connections getStatus s < connections getStatus x)"
proof -
  obtain s before after where sel: "selectServer getStatus rnd lb pool = (Inr (Some s), lb)"
    and split: "avail = before @ s # after"
    and lt: "\<forall>x\<in>set before. connections getStatus s < connections getStatus x"
    and le: "\<forall>x\<in>set after. connections getStatus s \<le> connections getStatus x"
    using selectServer_least [OF assms] by blast
  have mem: "s \<in> set avail" using split by simp
  have "\<forall>x\<in>set avail. connections getStatus s \<le> connections getStatus x"
  proof
    fix x assume "x \<in> set avail"
    then have "x \<in> set before \<or> x = s \<or> x \<in> set after" using split by auto
    then show "connections getStatus s \<le> connections getStatus x" using lt le by force
  qed
  then have "Min (connections getStatus ` set avail) = connections getStatus s"
    using mem by (intro Min_eqI) auto
  then show ?thesis using sel split lt by auto
qed

text \<open>
  In the pool \<open>h1, h2, h3, h4\<close>, \<open>h2\<close> and \<open>h4\<close> share the minimum of one active request;
  \<open>h2\<close> comes first and is selected.
\<close>

theorem least_connections_first_minimum_witness:
  "selectServer pool_status 0 \<lparr>strategy = LEAST_CONNECTIONS, roundRobinIndex = 0\<rparr> [''h1'', ''h2'', ''h3'', ''h4''] =
     (Inr (Some ''h2''), \<lparr>strategy = LEAST_CONNECTIONS, roundRobinIndex = 0\<rparr>)
   \<and> connections pool_status ''h2'' = 1
   \<and> Min (connections pool_status ` set [''h1'', ''h2'', ''h4'']) = 1"
proof -
  have h1: "strategy \<lparr>strategy = LEAST_CONNECTIONS, roundRobinIndex = 0\<rparr> = LEAST_CONNECTIONS"
    by simp
  have h2: "filter (\<lambda>server. online (pool_status server)) [''h1'', ''h2'', ''h3'', ''h4''] = [''h1'', ''h2'', ''h4'']"
    by (simp add: scenario_defs)
  have h3: "[''h1'', ''h2'', ''h4''] \<noteq> []" by simp
  obtain s before after where
    sel: "selectServer pool_status 0 \<lparr>strategy = LEAST_CONNECTIONS, roundRobinIndex = 0\<rparr>
            [''h1'', ''h2'', ''h3'', ''h4''] = (Inr (Some s), \<lparr>strategy = LEAST_CONNECTIONS, roundRobinIndex = 0\<rparr>)"
    and m: "connections pool_status s = Min (connections pool_status ` set [''h1'', ''h2'', ''h4''])"
    using least_connections_first_minimum [OF h1 h2 h3, of 0] by blast
  have "selectServer pool_status 0 \<lparr>strategy = LEAST_CONNECTIONS, roundRobinIndex = 0\<rparr>
          [''h1'', ''h2'', ''h3'', ''h4''] = (Inr (Some ''h2''), \<lparr>strategy = LEAST_CONNECTIONS, roundRobinIndex = 0\<rparr>)"
    by (simp add: selectServer_def selectLeastConnections_def connections_def scenario_defs)
  then have "s = ''h2''" using sel by simp
  moreover have "connections pool_status ''h2'' = 1" by (simp add: connections_def scenario_defs)
  ultimately show ?thesis using sel m by simp
qed

subsection \<open>Only online instances are selected\<close>

lemma js_index_member: "js_index xs i = Some x \<Longrightarrow> x \<in> set xs"
  by (auto simp: js_index_def split: if_splits)

lemma selectServer_member:
  assumes "selectServer getStatus rnd lb pool = (Inr (Some s), lb')"
  shows "s \<in> set (filter (\<lambda>server. online (getStatus server)) pool)"
proof -
  let ?avail = "filter (\<lambda>server. online (getStatus server)) pool"
  have "pool \<noteq> []" using assms by (auto simp: selectServer_def)
  moreover have ne: "?avail \<noteq> []"
    using assms by (auto simp: selectServer_def Let_def split: if_splits)
  ultimately have sel: "selectServer getStatus rnd lb pool =
      (case strategy lb of
         ROUND_ROBIN \<Rightarrow> selectRoundRobin lb ?avail
       | RANDOM \<Rightarrow> (selectRandom rnd ?avail, lb)
       | LEAST_CONNECTIONS \<Rightarrow> (selectLeastConnections getStatus ?avail, lb))"
    by (simp add: selectServer_def Let_def)
  show ?thesis
  proof (cases "strategy lb")
    case ROUND_ROBIN
    then have "js_index ?avail (int (roundRobinIndex lb mod length ?avail)) = Some s"
      using assms ne unfolding sel by (simp add: selectRoundRobin_def)
    then show ?thesis by (rule js_index_member)
  next
    case RANDOM
    then have "js_index ?avail \<lfloor>rnd * real (length ?avail)\<rfloor> = Some s"
      using assms ne unfolding sel by (simp add: selectRandom_def)
    then show ?thesis by (rule js_index_member)
  next
    case LEAST_CONNECTIONS
    obtain s' before after where
      "selectServer getStatus rnd lb pool = (Inr (Some s'), lb)" "?avail = before @ s' # after"
      using selectServer_least [OF LEAST_CONNECTIONS refl ne] by blast
    then have "s' = s" "s' \<in> set ?avail" using assms by simp_all
    then show ?thesis by simp
  qed
qed

text \<open>
  Claim C7. When the candidate list is not empty and no candidate reports online,
  \<open>selectServer\<close> fails with \<open>NoOnlineInstances\<close>, which is not the failure
  \<open>ServerNotFound\<close> of the registry. And under every policy, whatever the cursor and the
  random draw, a server that \<open>selectServer\<close> returns is a candidate whose status reported
  online when the list was filtered.
\<close>

theorem selectServer_only_online:
  "(pool \<noteq> [] \<and> (\<forall>server\<in>set pool. \<not> online (getStatus server)) \<longrightarrow>
      selectServer getStatus rnd lb pool = (Inl NoOnlineInstances, lb)
      \<and> NoOnlineInstances \<noteq> ServerNotFound name known)
   \<and> (selectServer getStatus rnd lb pool = (Inr (Some s), lb') \<longrightarrow>
        s \<in> set pool \<and> online (getStatus s))"
proof (intro conjI impI)
  assume "pool \<noteq> [] \<and> (\<forall>server\<in>set pool. \<not> online (getStatus server))"
  then show "selectServer getStatus rnd lb pool = (Inl NoOnlineInstances, lb)"
    by (simp add: selectServer_def Let_def)
next
  show "NoOnlineInstances \<noteq> ServerNotFound name known" by simp
next
  assume "selectServer getStatus rnd lb pool = (Inr (Some s), lb')"
  from selectServer_member [OF this] show "s \<in> set pool" by simp
next
  assume "selectServer getStatus rnd lb pool = (Inr (Some s), lb')"
  from selectServer_member [OF this] show "online (getStatus s)" by simp
qed

text \<open>
  Two candidates that are both down give \<open>NoOnlineInstances\<close>; a random draw of \<open>1/2\<close>
  over the online members \<open>h1, h2, h4\<close> selects \<open>h2\<close>, which is online.
\<close>

theorem selectServer_only_online_witness:
  "selectServer all_down (1 / 2) \<lparr>strategy = RANDOM, roundRobinIndex = 0\<rparr> [''h1'', ''h2''] =
     (Inl NoOnlineInstances, \<lparr>strategy = RANDOM, roundRobinIndex = 0\<rparr>)
   \<and> selectServer pool_status (1 / 2) \<lparr>strategy = RANDOM, roundRobinIndex = 0\<rparr> [''h1'', ''h2'', ''h3'', ''h4''] =
       (Inr (Some ''h2''), \<lparr>strategy = RANDOM, roundRobinIndex = 0\<rparr>)
   \<and> ''h2'' \<in> set [''h1'', ''h2'', ''h3'', ''h4''] \<and> online (pool_status ''h2'')"
proof -
  have h1: "[''h1'', ''h2''] \<noteq> [] \<and> (\<forall>server\<in>set [''h1'', ''h2'']. \<not> online (all_down server))"
    by (simp add: scenario_defs)
  have h2: "selectServer pool_status (1 / 2) \<lparr>strategy = RANDOM, roundRobinIndex = 0\<rparr>
              [''h1'', ''h2'', ''h3'', ''h4''] = (Inr (Some ''h2''), \<lparr>strategy = RANDOM, roundRobinIndex = 0\<rparr>)"
    by (simp add: selectServer_def selectRandom_def js_index_def scenario_defs)
  have a: "selectServer all_down (1 / 2) \<lparr>strategy = RANDOM, roundRobinIndex = 0\<rparr> [''h1'', ''h2''] =
      (Inl NoOnlineInstances, \<lparr>strategy = RANDOM, roundRobinIndex = 0\<rparr>)"
    using h1 selectServer_only_online [of "[''h1'', ''h2'']" all_down "1 / 2" "\<lparr>strategy = RANDOM, roundRobinIndex = 0\<rparr>"]
    by blast
  have b: "''h2'' \<in> set [''h1'', ''h2'', ''h3'', ''h4''] \<and> online (pool_status ''h2'')"
    using h2 selectServer_only_online [of "[''h1'', ''h2'', ''h3'', ''h4'']" pool_status "1 / 2"
            "\<lparr>strategy = RANDOM, roundRobinIndex = 0\<rparr>" _ _ "''h2''"
            "\<lparr>strategy = RANDOM, roundRobinIndex = 0\<rparr>"]
    by blast
  show ?thesis using a b h2 by blast
qed

subsection \<open>Changing the policy\<close>

text \<open>
  Claim C8. \<open>setStrategy\<close> leaves the balancer with the new policy and the cursor at zero,
  and the balancer has no other state. After a switch to round-robin the next selection
  is the first element of the filtered online list. After a switch to the random or the
  least-connections policy, \<open>selectServer\<close> answers what it answers under that policy
  with the cursor left as it was, and does not change the balancer: the reset has no
  effect on these two policies.
\<close>

theorem setStrategy_resets_cursor:
  "setStrategy s lb = \<lparr>strategy = s, roundRobinIndex = 0\<rparr>
   \<and> (filter (\<lambda>server. online (getStatus server)) pool = first # others \<longrightarrow>
        fst (selectServer getStatus rnd (setStrategy ROUND_ROBIN lb) pool) = Inr (Some first))
   \<and> (s \<noteq> ROUND_ROBIN \<longrightarrow>
        selectServer getStatus rnd (setStrategy s lb) pool =
          (fst (selectServer getStatus rnd (lb\<lparr>strategy := s\<rparr>) pool), setStrategy s lb))"
proof (intro conjI impI)
  show "setStrategy s lb = \<lparr>strategy = s, roundRobinIndex = 0\<rparr>"
    by (simp add: setStrategy_def)
next
  assume a: "filter (\<lambda>server. online (getStatus server)) pool = first # others"
  have "strategy (setStrategy ROUND_ROBIN lb) = ROUND_ROBIN" by (simp add: setStrategy_def)
  from selectServer_round_robin [OF this a]
  show "fst (selectServer getStatus rnd (setStrategy ROUND_ROBIN lb) pool) = Inr (Some first)"
    by (simp add: setStrategy_def)
next
  assume "s \<noteq> ROUND_ROBIN"
  then show "selectServer getStatus rnd (setStrategy s lb) pool =
          (fst (selectServer getStatus rnd (lb\<lparr>strategy := s\<rparr>) pool), setStrategy s lb)"
    by (cases s) (simp_all add: selectServer_def setStrategy_def Let_def)
qed

text \<open>
  Switching to round-robin with the cursor at 5 selects \<open>h2\<close>, the first online candidate
  of \<open>h3, h2, h1\<close>; switching to least-connections selects \<open>h2\<close> as well.
\<close>

theorem setStrategy_resets_cursor_witness:
  "setStrategy ROUND_ROBIN \<lparr>strategy = RANDOM, roundRobinIndex = 5\<rparr> =
     \<lparr>strategy = ROUND_ROBIN, roundRobinIndex = 0\<rparr>
   \<and> fst (selectServer pool_status 0
            (setStrategy ROUND_ROBIN \<lparr>strategy = RANDOM, roundRobinIndex = 5\<rparr>) [''h3'', ''h2'', ''h1'']) =
       Inr (Some ''h2'')
   \<and> selectServer pool_status 0
        (setStrategy LEAST_CONNECTIONS \<lparr>strategy = ROUND_ROBIN, roundRobinIndex = 5\<rparr>) [''h3'', ''h1'', ''h2'', ''h4''] =
       (Inr (Some ''h2''), \<lparr>strategy = LEAST_CONNECTIONS, roundRobinIndex = 0\<rparr>)"
proof -
  have h: "filter (\<lambda>server. online (pool_status server)) [''h3'', ''h2'', ''h1''] = [''h2'', ''h1'']"
    by (simp add: scenario_defs)
  have a: "fst (selectServer pool_status 0
      (\<lparr>strategy = ROUND_ROBIN, roundRobinIndex = 5\<rparr>\<lparr>strategy := LEAST_CONNECTIONS\<rparr>) [''h3'', ''h1'', ''h2'', ''h4'']) =
      Inr (Some ''h2'')"
    by (simp add: selectServer_def selectLeastConnections_def connections_def scenario_defs)
  show ?thesis
    using h a
      setStrategy_resets_cursor [of ROUND_ROBIN "\<lparr>strategy = RANDOM, roundRobinIndex = 5\<rparr>" pool_status "[''h3'', ''h2'', ''h1'']" "''h2''" "[''h1'']" 0]
      setStrategy_resets_cursor [of LEAST_CONNECTIONS "\<lparr>strategy = ROUND_ROBIN, roundRobinIndex = 5\<rparr>" pool_status
            "[''h3'', ''h1'', ''h2'', ''h4'']" _ _ 0]
    by (simp add: setStrategy_def)
qed

section \<open>Properties of the registry\<close>

subsection \<open>Evaluating executeTool\<close>

lemma executeTool_catch_answers:
  assumes "getStatus_catch env server = Inr status"
  shows "executeTool_catch env serverName server err reg =
           (err, updateServerStatus serverName (status\<lparr>online := False, error := Some err\<rparr>) reg)"
  using assms by (simp add: executeTool_catch_def)

lemma executeTool_catch_throws:
  assumes "getStatus_catch env server = Inl err'"
  shows "executeTool_catch env serverName server err reg = (err', reg)"
  using assms by (simp add: executeTool_catch_def)

lemma fst_executeTool_catch:
  "fst (executeTool_catch env serverName server err reg) =
     (case getStatus_catch env server of Inl err' \<Rightarrow> err' | Inr status \<Rightarrow> err)"
  by (simp add: executeTool_catch_def split: sum.splits)

lemma executeTool_missing:
  assumes "map_of (servers reg) serverName = None"
  shows "executeTool env serverName toolName params reg =
           (Inl (ServerNotFound serverName (getServerNames reg)), reg, [])"
  using assms by (simp add: executeTool_def executeTool_begin_def getServer_def)

lemma executeTool_unreadable:
  assumes "map_of (servers reg) serverName = Some server"
    and "getStatus_try env server = Inl err"
  shows "executeTool env serverName toolName params reg =
           (Inl (fst (executeTool_catch env serverName server err reg)),
            snd (executeTool_catch env serverName server err reg), [])"
  using assms
  by (simp add: executeTool_def executeTool_begin_def getServer_def split: prod.splits)

lemma executeTool_refused:
  assumes "map_of (servers reg) serverName = Some server"
    and "getStatus_try env server = Inr status"
    and "\<not> online status"
  shows "executeTool env serverName toolName params reg =
           (Inl (fst (executeTool_catch env serverName server (ServerUnavailable serverName) reg)),
            snd (executeTool_catch env serverName server (ServerUnavailable serverName) reg), [])"
  using assms
  by (simp add: executeTool_def executeTool_begin_def getServer_def split: prod.splits)

lemma executeTool_resolved:
  assumes "map_of (servers reg) serverName = Some server"
    and "getStatus_try env server = Inr status"
    and "online status"
    and "server_executeTool env server toolName params = Resolved result"
  shows "executeTool env serverName toolName params reg =
           (Inr result,
            updateServerStatus serverName
              ((status_at_copy env server)\<lparr>responseTime := Some (endTime env - startTime env)\<rparr>) reg,
            [(server, toolName, params)])"
  using assms
  by (simp add: executeTool_def executeTool_begin_def executeTool_resume_def getServer_def Let_def)

lemma executeTool_rejected:
  assumes "map_of (servers reg) serverName = Some server"
    and "getStatus_try env server = Inr status"
    and "online status"
    and "server_executeTool env server toolName params = Rejected err"
  shows "executeTool env serverName toolName params reg =
           (Inl (fst (executeTool_catch env serverName server err reg)),
            snd (executeTool_catch env serverName server err reg),
            [(server, toolName, params)])"
  using assms
  by (simp add: executeTool_def executeTool_begin_def executeTool_resume_def getServer_def Let_def
        split: prod.splits)

text \<open>
  A suspended call goes on with the registry as the operations in between have left it.
  Its outcome does not depend on that registry, and neither does the status it writes
  for its service.
\<close>

lemma executeTool_resume_outcome:
  "fst (executeTool_resume call reg) = fst (executeTool_resume call reg')"
  by (cases "server_executeTool (its_env call) (its_server call) (its_toolName call) (its_params call)")
     (simp_all add: executeTool_resume_def Let_def case_prod_beta fst_executeTool_catch)

lemma executeTool_resume_writes:
  assumes "getStatus_catch (its_env call) (its_server call) = Inr status'"
  shows "getServerStatus (its_serverName call) (snd (executeTool_resume call reg)) =
     Some (case server_executeTool (its_env call) (its_server call) (its_toolName call)
                 (its_params call) of
             Resolved result \<Rightarrow>
               (status_at_copy (its_env call) (its_server call))
                 \<lparr>responseTime := Some (endTime (its_env call) - startTime (its_env call))\<rparr>
           | Rejected err \<Rightarrow> status'\<lparr>online := False, error := Some err\<rparr>)"
  by (cases "server_executeTool (its_env call) (its_server call) (its_toolName call) (its_params call)")
     (simp_all add: executeTool_resume_def Let_def executeTool_catch_answers [OF assms]
        getServerStatus_def updateServerStatus_def update_conv')

lemma status_updateServerStatus:
  "getServerStatus n (updateServerStatus name status reg) =
     (if n = name then Some status else getServerStatus n reg)"
  by (simp add: getServerStatus_def updateServerStatus_def update_conv')

lemma servers_updateServerStatus: "servers (updateServerStatus name status reg) = servers reg"
  by (simp add: updateServerStatus_def)

lemmas call_defs =
  failing_call_def good_call_def refused_call_def counting_call_def unreadable_call_def
  backend_ok_def backend_fails_def report_idle_def report_busy_def report_down_def
  report_throws_def still_idle_def still_busy_def now_counted_def

lemma run_Nil: "run [] sys = sys"
  by (simp add: run_def)

lemma run_Cons: "run (op # ops) sys = run ops (step op sys)"
  by (simp add: run_def)

lemma svc_registered_eq:
  "svc_registered =
     \<lparr>servers = [(''svc-a'', ''h1'')], serverStatuses = [(''svc-a'', idle_status)]\<rparr>"
  by (simp add: svc_registered_def run_Cons run_Nil initial_def register_def emptyRegistry_def
        report_idle_def)

lemma svc_registered_found: "map_of (servers svc_registered) ''svc-a'' = Some ''h1''"
  by (simp add: svc_registered_eq)

lemma failing_call_try: "getStatus_try failing_call ''h1'' = Inr idle_status"
  by (simp add: call_defs)

lemma failing_call_rejected:
  "server_executeTool failing_call ''h1'' ''op1'' ''{}'' = Rejected (Other ''boom'')"
  by (simp add: call_defs)

lemma failing_call_catch: "getStatus_catch failing_call ''h1'' = Inr idle_status"
  by (simp add: call_defs)

lemma good_call_try: "getStatus_try good_call ''h1'' = Inr busy_status"
  by (simp add: call_defs)

lemma good_call_resolved:
  "server_executeTool good_call ''h1'' ''op1'' ''{}'' = Resolved ''done''"
  by (simp add: call_defs)

lemma refused_call_try: "getStatus_try refused_call ''h1'' = Inr down_status"
  by (simp add: call_defs)

lemma refused_call_catch: "getStatus_catch refused_call ''h1'' = Inr down_status"
  by (simp add: call_defs)

lemma online_idle: "online idle_status"
  by (simp add: idle_status_def)

lemma online_busy: "online busy_status"
  by (simp add: busy_status_def)

lemma offline_down: "\<not> online down_status"
  by (simp add: down_status_def)

lemma failing_call_result:
  "executeTool failing_call ''svc-a'' ''op1'' ''{}'' svc_registered =
     (Inl (Other ''boom''),
      \<lparr>servers = [(''svc-a'', ''h1'')],
       serverStatuses = [(''svc-a'', idle_status\<lparr>online := False, error := Some (Other ''boom'')\<rparr>)]\<rparr>,
      [(''h1'', ''op1'', ''{}'')])"
  by (simp add: executeTool_rejected [OF svc_registered_found failing_call_try online_idle
          failing_call_rejected]
        executeTool_catch_answers [OF failing_call_catch])
     (simp add: updateServerStatus_def svc_registered_eq)

lemma svc_failed_eq:
  "svc_failed =
     \<lparr>servers = [(''svc-a'', ''h1'')],
      serverStatuses = [(''svc-a'', idle_status\<lparr>online := False, error := Some (Other ''boom'')\<rparr>)]\<rparr>"
proof -
  have "svc_failed = fst (snd (executeTool failing_call ''svc-a'' ''op1'' ''{}'' svc_registered))"
    by (simp add: svc_failed_def svc_registered_def run_Cons run_Nil initial_def executeTool_def
          split: prod.splits begun.splits)
  then show ?thesis by (simp add: failing_call_result)
qed

lemma svc_failed_found: "map_of (servers svc_failed) ''svc-a'' = Some ''h1''"
  by (simp add: svc_failed_eq)

lemma good_call_result:
  "executeTool good_call ''svc-a'' ''op1'' ''{}'' svc_failed =
     (Inr ''done'',
      \<lparr>servers = [(''svc-a'', ''h1'')],
       serverStatuses = [(''svc-a'', busy_status\<lparr>responseTime := Some 40\<rparr>)]\<rparr>,
      [(''h1'', ''op1'', ''{}'')])"
  by (simp add: executeTool_resolved [OF svc_failed_found good_call_try online_busy
          good_call_resolved])
     (simp add: updateServerStatus_def svc_failed_eq call_defs)

lemma good_call_registered:
  "executeTool good_call ''svc-a'' ''op1'' ''{}'' svc_registered =
     (Inr ''done'',
      \<lparr>servers = [(''svc-a'', ''h1'')],
       serverStatuses = [(''svc-a'', busy_status\<lparr>responseTime := Some 40\<rparr>)]\<rparr>,
      [(''h1'', ''op1'', ''{}'')])"
  by (simp add: executeTool_resolved [OF svc_registered_found good_call_try online_busy
          good_call_resolved])
     (simp add: updateServerStatus_def svc_registered_eq call_defs)

lemma three_registered_eq:
  "three_registered =
     \<lparr>servers = [(''svc-a'', ''h1''), (''svc-b'', ''h2''), (''svc-c'', ''h3'')],
      serverStatuses = [(''svc-a'', idle_status), (''svc-b'', idle_status), (''svc-c'', idle_status)]\<rparr>"
  by (simp add: three_registered_def run_Cons run_Nil initial_def register_def emptyRegistry_def
        report_idle_def)

subsection \<open>The two maps and their names\<close>

text \<open>
  Claim C3 says that the name-to-handle map and the name-to-status map have the same
  key set after every operation. \<open>register\<close> and \<open>unregister\<close> write and delete in both
  maps, and the probe callback writes a status only for a name that still has one. Two
  paths of the code break the claim.

  The first is \<open>executeTool\<close>. It writes the status after its \<open>await\<close> without looking
  whether the name is still registered: in \<open>unregistered_during_call\<close>, \<open>svc-a\<close> is
  unregistered while a call for it waits for the handle, and when the handle's call
  resolves the status map gets the key \<open>svc-a\<close> back while the handle map stays empty.

  The second is \<open>register\<close>. It stores the handle before it asks for the status: in
  \<open>register_unreadable\<close> the handle's \<open>getStatus()\<close> throws, and the handle map has the key
  \<open>svc-a\<close> while the status map has none.
\<close>

theorem registry_maps_differ:
  "fst ` set (servers (registry (run unregistered_during_call initial))) = {}
   \<and> fst ` set (serverStatuses (registry (run unregistered_during_call initial))) = {''svc-a''}
   \<and> fst ` set (servers (registry (run register_unreadable initial))) = {''svc-a''}
   \<and> fst ` set (serverStatuses (registry (run register_unreadable initial))) = {}"
proof -
  have started: "run [Register report_idle ''svc-a'' ''h1'',
                      ExecuteTool good_call ''svc-a'' ''op1'' ''{}''] initial =
      \<lparr>registry = svc_registered,
       suspended = [\<lparr>its_env = good_call, its_serverName = ''svc-a'', its_server = ''h1'',
                     its_toolName = ''op1'', its_params = ''{}''\<rparr>]\<rparr>"
    by (simp add: run_Cons run_Nil initial_def svc_registered_eq register_def emptyRegistry_def
          report_idle_def executeTool_begin_def getServer_def getServerNames_def good_call_try
          online_busy)
  have "run unregistered_during_call initial =
      run [Unregister ''svc-a'', Settle 0]
        (run [Register report_idle ''svc-a'' ''h1'',
              ExecuteTool good_call ''svc-a'' ''op1'' ''{}''] initial)"
    by (simp add: unregistered_during_call_def run_Cons run_Nil)
  then have first: "registry (run unregistered_during_call initial) =
      \<lparr>servers = [], serverStatuses = [(''svc-a'', busy_status\<lparr>responseTime := Some 40\<rparr>)]\<rparr>"
    unfolding started
    by (simp add: run_Cons run_Nil svc_registered_eq unregister_def executeTool_resume_def
          good_call_resolved updateServerStatus_def Let_def)
       (simp add: call_defs)
  have second: "registry (run register_unreadable initial) =
      \<lparr>servers = [(''svc-a'', ''h1'')], serverStatuses = []\<rparr>"
    by (simp add: register_unreadable_def run_Cons run_Nil initial_def register_def
          emptyRegistry_def report_throws_def)
  show ?thesis unfolding first second by simp
qed

subsection \<open>What executeTool checks before it calls the handle\<close>

text \<open>
  Claim C1 says that \<open>executeTool\<close> reads the cached status of a registered service and
  refuses the call, with the cached error string, when the cache says offline. The
  code reads the status that the handle reports (\<open>server.getStatus()\<close>), not the cache.
  As the code has it, for a registered name whose handle answers a status in the \<open>try\<close>
  block and during a call that no other operation interrupts:
  \<^item> when that status has \<open>online = false\<close>, the handle's \<open>executeTool\<close> is not called,
    and the call fails with \<open>ServerUnavailable\<close>, which names the service and carries no
    cached error string, provided the handle answers its status again in the \<open>catch\<close>
    block;
  \<^item> when it has \<open>online = true\<close>, the handle's \<open>executeTool\<close> is called once with the
    tool name and the parameters; its result is the result of the call, and its error
    is the error of the call provided the handle answers its status in the \<open>catch\<close>
    block;
  \<^item> the cache has no part in it: with any other content of the status map the outcome
    and the calls made are the same.
  Nothing is said here of a handle whose \<open>getStatus()\<close> throws.
\<close>

theorem executeTool_checks_handle_status:
  assumes "map_of (servers reg) serverName = Some server"
    and "getStatus_try env server = Inr status"
  shows "(\<not> online status \<longrightarrow>
            snd (snd (executeTool env serverName toolName params reg)) = []
          \<and> (getStatus_catch env server = Inr status' \<longrightarrow>
               fst (executeTool env serverName toolName params reg) =
                 Inl (ServerUnavailable serverName)))
       \<and> (online status \<longrightarrow>
            snd (snd (executeTool env serverName toolName params reg)) = [(server, toolName, params)]
          \<and> (server_executeTool env server toolName params = Resolved result \<longrightarrow>
               fst (executeTool env serverName toolName params reg) = Inr result)
          \<and> (server_executeTool env server toolName params = Rejected err \<longrightarrow>
               getStatus_catch env server = Inr status' \<longrightarrow>
               fst (executeTool env serverName toolName params reg) = Inl err))
       \<and> fst (executeTool env serverName toolName params (reg\<lparr>serverStatuses := cache\<rparr>)) =
           fst (executeTool env serverName toolName params reg)
       \<and> snd (snd (executeTool env serverName toolName params (reg\<lparr>serverStatuses := cache\<rparr>))) =
           snd (snd (executeTool env serverName toolName params reg))"
proof -
  let ?other = "reg\<lparr>serverStatuses := cache\<rparr>"
  have other: "map_of (servers ?other) serverName = Some server" using assms(1) by simp
  show ?thesis
  proof (cases "online status")
    case False
    show ?thesis
      using False
      by (simp add: executeTool_refused [OF assms False] executeTool_refused [OF other assms(2) False]
            fst_executeTool_catch)
  next
    case True
    show ?thesis
    proof (cases "server_executeTool env server toolName params")
      case (Resolved r)
      show ?thesis
        using True Resolved
        by (simp add: executeTool_resolved [OF assms True Resolved]
              executeTool_resolved [OF other assms(2) True Resolved])
    next
      case (Rejected e)
      show ?thesis
        using True Rejected
        by (simp add: executeTool_rejected [OF assms True Rejected]
              executeTool_rejected [OF other assms(2) True Rejected] fst_executeTool_catch)
    qed
  qed
qed

text \<open>
  Against C1 as stated: in \<open>svc_failed\<close> the cached status of \<open>svc-a\<close> is offline with the
  error \<open>boom\<close>, the handle reports online, and \<open>executeTool\<close> calls the handle and
  succeeds.
\<close>

theorem executeTool_ignores_cached_status:
  "map_option online (getServerStatus ''svc-a'' svc_failed) = Some False
   \<and> map_option error (getServerStatus ''svc-a'' svc_failed) = Some (Some (Other ''boom''))
   \<and> fst (executeTool good_call ''svc-a'' ''op1'' ''{}'' svc_failed) = Inr ''done''
   \<and> snd (snd (executeTool good_call ''svc-a'' ''op1'' ''{}'' svc_failed)) =
       [(''h1'', ''op1'', ''{}'')]"
  by (simp add: good_call_result) (simp add: svc_failed_eq getServerStatus_def idle_status_def)

text \<open>
  The same registry with a handle that reports online, and with one that reports
  offline.
\<close>

theorem executeTool_checks_handle_status_witness:
  "map_of (servers svc_failed) ''svc-a'' = Some ''h1''
   \<and> getStatus_try good_call ''h1'' = Inr busy_status \<and> online busy_status
   \<and> snd (snd (executeTool good_call ''svc-a'' ''op1'' ''{}'' svc_failed)) =
       [(''h1'', ''op1'', ''{}'')]
   \<and> fst (executeTool good_call ''svc-a'' ''op1'' ''{}'' svc_failed) = Inr ''done''
   \<and> getStatus_try refused_call ''h1'' = Inr down_status \<and> \<not> online down_status
   \<and> getStatus_catch refused_call ''h1'' = Inr down_status
   \<and> fst (executeTool refused_call ''svc-a'' ''op1'' ''{}'' svc_failed) =
       Inl (ServerUnavailable ''svc-a'')
   \<and> snd (snd (executeTool refused_call ''svc-a'' ''op1'' ''{}'' svc_failed)) = []"
proof -
  note good = executeTool_checks_handle_status [OF svc_failed_found good_call_try,
      where toolName = "''op1''" and params = "''{}''" and result = "''done''"]
  note refused = executeTool_checks_handle_status [OF svc_failed_found refused_call_try,
      where toolName = "''op1''" and params = "''{}''" and status' = down_status]
  show ?thesis
    using good refused svc_failed_found good_call_try online_busy good_call_resolved
      refused_call_try offline_down refused_call_catch
    by simp
qed

text \<open>
  Claim C10. When \<open>executeTool\<close> is called for a registered service whose handle reports
  \<open>online = false\<close>, the call throws \<open>ServerUnavailable\<close>, the handle's \<open>executeTool\<close> is
  not called, and the cached status of the service is overwritten by the status that the
  handle answers in the \<open>catch\<close> block, with \<open>online = false\<close> and the rejection message
  as \<open>error\<close>. The two readings of the handle's status follow each other at once; both
  are taken to answer.
\<close>

theorem offline_rejection_updates_cache:
  assumes "map_of (servers reg) serverName = Some server"
    and "getStatus_try env server = Inr status"
    and "\<not> online status"
    and "getStatus_catch env server = Inr status'"
  shows "executeTool env serverName toolName params reg =
           (Inl (ServerUnavailable serverName),
            updateServerStatus serverName
              (status'\<lparr>online := False, error := Some (ServerUnavailable serverName)\<rparr>) reg,
            [])
         \<and> getServerStatus serverName (fst (snd (executeTool env serverName toolName params reg))) =
             Some (status'\<lparr>online := False, error := Some (ServerUnavailable serverName)\<rparr>)"
  by (simp add: executeTool_refused [OF assms(1,2,3)] executeTool_catch_answers [OF assms(4)]
        status_updateServerStatus)

text \<open>
  The cached status of \<open>svc-a\<close> was \<open>idle_status\<close>, online; after the refused call it is
  the handle's offline status with the rejection message.
\<close>

theorem offline_rejection_updates_cache_witness:
  "map_of (servers svc_registered) ''svc-a'' = Some ''h1''
   \<and> getStatus_try refused_call ''h1'' = Inr down_status \<and> \<not> online down_status
   \<and> getStatus_catch refused_call ''h1'' = Inr down_status
   \<and> executeTool refused_call ''svc-a'' ''op1'' ''{}'' svc_registered =
       (Inl (ServerUnavailable ''svc-a''),
        updateServerStatus ''svc-a''
          (down_status\<lparr>online := False, error := Some (ServerUnavailable ''svc-a'')\<rparr>) svc_registered,
        [])
   \<and> getServerStatus ''svc-a'' svc_registered = Some idle_status
   \<and> getServerStatus ''svc-a''
        (fst (snd (executeTool refused_call ''svc-a'' ''op1'' ''{}'' svc_registered))) =
       Some (down_status\<lparr>online := False, error := Some (ServerUnavailable ''svc-a'')\<rparr>)"
proof -
  have before: "getServerStatus ''svc-a'' svc_registered = Some idle_status"
    by (simp add: svc_registered_eq getServerStatus_def)
  show ?thesis
    using before svc_registered_found refused_call_try offline_down refused_call_catch
      offline_rejection_updates_cache [OF svc_registered_found refused_call_try offline_down refused_call_catch,
        of "''op1''" "''{}''"]
    by (simp add: status_updateServerStatus)
qed

subsection \<open>Request counters\<close>

text \<open>
  Claim C4 says that the \<open>activeRequests\<close> counter of a service returns to its value
  before the call after a successful and after a failing \<open>executeTool\<close>. The registry
  never increments or decrements a counter. As the code has it, for a registered name
  and a call that no other operation interrupts:
  \<^item> after a call that succeeds, the cached \<open>load\<close> is the \<open>load\<close> of the status object that
    the handle answered in the \<open>try\<close> block, with the content that object has when it is
    copied after the handle's call;
  \<^item> after a call that fails, the cached \<open>load\<close> is the \<open>load\<close> of the status that the
    handle answers in the \<open>catch\<close> block, when it answers one.
  The cached counters equal their values before the call only when the handle reports
  those values.
\<close>

theorem executeTool_load_from_handle:
  assumes "map_of (servers reg) serverName = Some server"
  shows "(getStatus_try env server = Inr status \<longrightarrow> online status \<longrightarrow>
          server_executeTool env server toolName params = Resolved result \<longrightarrow>
            map_option load
              (getServerStatus serverName
                 (fst (snd (executeTool env serverName toolName params reg)))) =
            Some (load (status_at_copy env server)))
       \<and> (fst (executeTool env serverName toolName params reg) = Inl err \<longrightarrow>
          getStatus_catch env server = Inr status' \<longrightarrow>
            map_option load
              (getServerStatus serverName
                 (fst (snd (executeTool env serverName toolName params reg)))) =
            Some (load status'))"
proof (intro conjI impI)
  assume "getStatus_try env server = Inr status" "online status"
    "server_executeTool env server toolName params = Resolved result"
  then show "map_option load
      (getServerStatus serverName (fst (snd (executeTool env serverName toolName params reg)))) =
      Some (load (status_at_copy env server))"
    by (simp add: executeTool_resolved [OF assms] status_updateServerStatus)
next
  assume failed: "fst (executeTool env serverName toolName params reg) = Inl err"
    and answers: "getStatus_catch env server = Inr status'"
  have caught: "\<And>e. getServerStatus serverName (snd (executeTool_catch env serverName server e reg)) =
      Some (status'\<lparr>online := False, error := Some e\<rparr>)"
    by (simp add: executeTool_catch_answers [OF answers] status_updateServerStatus)
  show "map_option load
      (getServerStatus serverName (fst (snd (executeTool env serverName toolName params reg)))) =
      Some (load status')"
  proof (cases "getStatus_try env server")
    case (Inl e)
    then show ?thesis by (simp add: executeTool_unreadable [OF assms Inl] caught)
  next
    case (Inr st)
    show ?thesis
    proof (cases "online st")
      case False
      then show ?thesis by (simp add: executeTool_refused [OF assms Inr False] caught)
    next
      case True
      show ?thesis
      proof (cases "server_executeTool env server toolName params")
        case (Resolved r)
        then show ?thesis using failed by (simp add: executeTool_resolved [OF assms Inr True Resolved])
      next
        case (Rejected e)
        then show ?thesis by (simp add: executeTool_rejected [OF assms Inr True Rejected] caught)
      qed
    qed
  qed
qed

text \<open>
  Against C4 as stated: \<open>svc-a\<close> is cached with no active request, the handle reports
  three during a call that succeeds, and the cache then holds three.
\<close>

theorem executeTool_changes_activeRequests:
  "map_option load (getServerStatus ''svc-a'' svc_registered) =
     Some (Some \<lparr>activeRequests = 0, totalRequests = 0\<rparr>)
   \<and> fst (executeTool good_call ''svc-a'' ''op1'' ''{}'' svc_registered) = Inr ''done''
   \<and> map_option load
        (getServerStatus ''svc-a''
           (fst (snd (executeTool good_call ''svc-a'' ''op1'' ''{}'' svc_registered)))) =
       Some (Some \<lparr>activeRequests = 3, totalRequests = 7\<rparr>)"
  by (simp add: good_call_registered)
     (simp add: svc_registered_eq getServerStatus_def idle_status_def busy_status_def)

text \<open>
  A handle that counts the request in the status object it answered: the object read
  \<open>0/0\<close> before the call and is cached as \<open>1/1\<close>. And a failing call, after which the cache
  holds the load that the handle reported in the \<open>catch\<close> block.
\<close>

theorem executeTool_load_from_handle_witness:
  "map_of (servers svc_registered) ''svc-a'' = Some ''h1''
   \<and> getStatus_try counting_call ''h1'' = Inr idle_status \<and> online idle_status
   \<and> server_executeTool counting_call ''h1'' ''op1'' ''{}'' = Resolved ''done''
   \<and> load idle_status = Some \<lparr>activeRequests = 0, totalRequests = 0\<rparr>
   \<and> map_option load
        (getServerStatus ''svc-a''
           (fst (snd (executeTool counting_call ''svc-a'' ''op1'' ''{}'' svc_registered)))) =
       Some (Some \<lparr>activeRequests = 1, totalRequests = 1\<rparr>)
   \<and> fst (executeTool failing_call ''svc-a'' ''op1'' ''{}'' svc_registered) = Inl (Other ''boom'')
   \<and> getStatus_catch failing_call ''h1'' = Inr idle_status
   \<and> map_option load
        (getServerStatus ''svc-a''
           (fst (snd (executeTool failing_call ''svc-a'' ''op1'' ''{}'' svc_registered)))) =
       Some (Some \<lparr>activeRequests = 0, totalRequests = 0\<rparr>)"
proof -
  have t: "getStatus_try counting_call ''h1'' = Inr idle_status" by (simp add: call_defs)
  have r: "server_executeTool counting_call ''h1'' ''op1'' ''{}'' = Resolved ''done''"
    by (simp add: call_defs)
  have c: "status_at_copy counting_call ''h1'' = counted_status" by (simp add: call_defs)
  have f: "fst (executeTool failing_call ''svc-a'' ''op1'' ''{}'' svc_registered) = Inl (Other ''boom'')"
    by (simp add: failing_call_result)
  note counted = executeTool_load_from_handle [OF svc_registered_found, where env = counting_call
      and toolName = "''op1''" and params = "''{}''" and status = idle_status and result = "''done''"]
  note failed = executeTool_load_from_handle [OF svc_registered_found, where env = failing_call
      and toolName = "''op1''" and params = "''{}''" and err = "Other ''boom''"
      and status' = idle_status]
  show ?thesis
    using counted failed svc_registered_found t r f online_idle failing_call_catch
    by (simp add: c counted_status_def idle_status_def)
qed

subsection \<open>The probe loop\<close>

lemma map_of_key: "map_of al k = Some v \<Longrightarrow> k \<in> fst ` set al"
  by (induction al) (auto split: if_splits)

lemma performHealthCheck_servers:
  "servers (fst (performHealthCheck healthCheck newDate reg)) = servers reg"
  by (simp add: performHealthCheck_def split: prod.splits)

lemma checkServer_other:
  assumes "n \<noteq> fst entry"
  shows "map_of (fst (checkServer healthCheck newDate entry acc)) n = map_of (fst acc) n"
proof -
  obtain name server where entry: "entry = (name, server)" by (cases entry)
  obtain statuses probed where acc: "acc = (statuses, probed)" by (cases acc)
  have "n \<noteq> name" using assms entry by simp
  then show ?thesis
    by (cases "healthCheck server"; cases "map_of statuses name")
       (simp_all add: checkServer_def entry acc update_conv')
qed

lemma checkServer_own:
  "map_of (fst (checkServer healthCheck newDate (name, server) (statuses, probed))) name =
     map_option
       (\<lambda>currentStatus.
          case healthCheck server of
            Resolved isHealthy \<Rightarrow>
              currentStatus\<lparr>online := isHealthy, lastUpdate := newDate name,
                error := if isHealthy then None else Some HealthCheckFailed\<rparr>
          | Rejected err \<Rightarrow>
              currentStatus\<lparr>online := False, lastUpdate := newDate name, error := Some err\<rparr>)
       (map_of statuses name)"
  by (cases "healthCheck server"; cases "map_of statuses name")
     (simp_all add: checkServer_def update_conv')

lemma checkServer_probed:
  "snd (checkServer healthCheck newDate entry acc) = snd acc @ [fst entry]"
proof -
  obtain name server where entry: "entry = (name, server)" by (cases entry)
  obtain statuses probed where acc: "acc = (statuses, probed)" by (cases acc)
  show ?thesis
    by (cases "healthCheck server"; cases "map_of statuses name")
       (simp_all add: checkServer_def entry acc)
qed

lemma fold_checkServer_probed:
  "snd (fold (checkServer healthCheck newDate) entries acc) = snd acc @ map fst entries"
  by (induction entries arbitrary: acc) (simp_all add: checkServer_probed)

lemma fold_checkServer_other:
  "n \<notin> fst ` set entries \<Longrightarrow>
   map_of (fst (fold (checkServer healthCheck newDate) entries acc)) n = map_of (fst acc) n"
  by (induction entries arbitrary: acc) (simp_all add: checkServer_other)

lemma fold_checkServer_own:
  assumes "distinct (map fst entries)" and "(name, server) \<in> set entries"
  shows "map_of (fst (fold (checkServer healthCheck newDate) entries (statuses, probed))) name =
     map_option
       (\<lambda>currentStatus.
          case healthCheck server of
            Resolved isHealthy \<Rightarrow>
              currentStatus\<lparr>online := isHealthy, lastUpdate := newDate name,
                error := if isHealthy then None else Some HealthCheckFailed\<rparr>
          | Rejected err \<Rightarrow>
              currentStatus\<lparr>online := False, lastUpdate := newDate name, error := Some err\<rparr>)
       (map_of statuses name)"
  using assms
proof (induction entries arbitrary: statuses probed)
  case Nil
  then show ?case by simp
next
  case (Cons entry entries)
  obtain statuses' probed' where next_acc:
    "checkServer healthCheck newDate entry (statuses, probed) = (statuses', probed')"
    by (cases "checkServer healthCheck newDate entry (statuses, probed)")
  show ?case
  proof (cases "entry = (name, server)")
    case True
    then have "name \<notin> fst ` set entries" using Cons.prems(1) by auto
    then have "map_of (fst (fold (checkServer healthCheck newDate) entries (statuses', probed'))) name =
        map_of statuses' name"
      using fold_checkServer_other [of name entries healthCheck newDate "(statuses', probed')"]
      by simp
    moreover have "map_of statuses' name =
        map_of (fst (checkServer healthCheck newDate (name, server) (statuses, probed))) name"
      using next_acc True by simp
    ultimately show ?thesis
      by (simp add: next_acc checkServer_own)
  next
    case False
    then have mem: "(name, server) \<in> set entries" using Cons.prems(2) by simp
    then have "name \<in> fst ` set entries" by force
    moreover have "fst entry \<notin> fst ` set entries" using Cons.prems(1) by simp
    ultimately have "name \<noteq> fst entry" by blast
    then have same: "map_of statuses' name = map_of statuses name"
      using checkServer_other [of name entry healthCheck newDate "(statuses, probed)"] next_acc
      by simp
    have d: "distinct (map fst entries)" using Cons.prems(1) by simp
    show ?thesis
      using Cons.IH [OF d mem, of statuses' probed'] same by (simp add: next_acc)
  qed
qed

text \<open>
  Claim C9. A probe tick probes every registered name, whatever the probes settle to,
  and leaves the handle map as it was. For a registered name that has a cached status,
  the outcome of its own probe alone decides its new status: a probe that answers sets
  \<open>online\<close> to the answer, \<open>lastUpdate\<close> to the time of the write, and \<open>error\<close> to nothing
  when healthy and to \<open>HealthCheckFailed\<close> otherwise; a probe that raises sets
  \<open>online = false\<close> and \<open>error\<close> to the message raised. The other fields of the cached
  status are kept. The keys of a \<open>Map\<close> are distinct.
\<close>

theorem health_check_isolated:
  assumes "distinct (map fst (servers reg))"
    and "map_of (servers reg) name = Some server"
    and "getServerStatus name reg = Some currentStatus"
  shows "getServerStatus name (fst (performHealthCheck healthCheck newDate reg)) =
             Some (case healthCheck server of
                     Resolved isHealthy \<Rightarrow>
                       currentStatus\<lparr>online := isHealthy, lastUpdate := newDate name,
                         error := if isHealthy then None else Some HealthCheckFailed\<rparr>
                   | Rejected err \<Rightarrow>
                       currentStatus\<lparr>online := False, lastUpdate := newDate name,
                         error := Some err\<rparr>)
         \<and> snd (performHealthCheck healthCheck newDate reg) = getServerNames reg
         \<and> servers (fst (performHealthCheck healthCheck newDate reg)) = servers reg"
proof -
  have mem: "(name, server) \<in> set (servers reg)" using assms(2) by (rule map_of_SomeD)
  have cur: "map_of (serverStatuses reg) name = Some currentStatus"
    using assms(3) by (simp add: getServerStatus_def)
  obtain statuses probed where f:
    "fold (checkServer healthCheck newDate) (servers reg) (serverStatuses reg, []) = (statuses, probed)"
    by (cases "fold (checkServer healthCheck newDate) (servers reg) (serverStatuses reg, [])")
  have own: "map_of statuses name =
      Some (case healthCheck server of
              Resolved isHealthy \<Rightarrow>
                currentStatus\<lparr>online := isHealthy, lastUpdate := newDate name,
                  error := if isHealthy then None else Some HealthCheckFailed\<rparr>
            | Rejected err \<Rightarrow>
                currentStatus\<lparr>online := False, lastUpdate := newDate name, error := Some err\<rparr>)"
    using fold_checkServer_own [OF assms(1) mem, of healthCheck newDate "serverStatuses reg" "[]"]
    by (simp add: f cur)
  have probed: "probed = map fst (servers reg)"
    using fold_checkServer_probed [of healthCheck newDate "servers reg" "(serverStatuses reg, [])"]
    by (simp add: f)
  show ?thesis
    using own probed
    by (simp add: getServerStatus_def performHealthCheck_def f getServerNames_def)
qed

text \<open>
  Three services; the probe of \<open>svc-a\<close>, the first one, raises \<open>timeout\<close>. \<open>svc-b\<close> and
  \<open>svc-c\<close> are probed all the same and get their own results.
\<close>

theorem health_check_isolated_witness:
  "distinct (map fst (servers three_registered))
   \<and> map_of (servers three_registered) ''svc-a'' = Some ''h1''
   \<and> probe_raises ''h1'' = Rejected (Other ''timeout'')
   \<and> getServerStatus ''svc-a'' (fst (performHealthCheck probe_raises probe_time three_registered)) =
       Some (idle_status\<lparr>online := False, lastUpdate := 4000, error := Some (Other ''timeout'')\<rparr>)
   \<and> getServerStatus ''svc-b'' (fst (performHealthCheck probe_raises probe_time three_registered)) =
       Some (idle_status\<lparr>online := True, lastUpdate := 4000, error := None\<rparr>)
   \<and> getServerStatus ''svc-c'' (fst (performHealthCheck probe_raises probe_time three_registered)) =
       Some (idle_status\<lparr>online := False, lastUpdate := 4000, error := Some HealthCheckFailed\<rparr>)
   \<and> snd (performHealthCheck probe_raises probe_time three_registered) =
       [''svc-a'', ''svc-b'', ''svc-c'']"
proof -
  have d: "distinct (map fst (servers three_registered))" by (simp add: three_registered_eq)
  have a: "map_of (servers three_registered) ''svc-a'' = Some ''h1''"
    and b: "map_of (servers three_registered) ''svc-b'' = Some ''h2''"
    and c: "map_of (servers three_registered) ''svc-c'' = Some ''h3''"
    by (simp_all add: three_registered_eq)
  have cur: "getServerStatus ''svc-a'' three_registered = Some idle_status"
    "getServerStatus ''svc-b'' three_registered = Some idle_status"
    "getServerStatus ''svc-c'' three_registered = Some idle_status"
    by (simp_all add: three_registered_eq getServerStatus_def)
  have names: "getServerNames three_registered = [''svc-a'', ''svc-b'', ''svc-c'']"
    by (simp add: three_registered_eq getServerNames_def)
  show ?thesis
    using d a
      health_check_isolated [OF d a cur(1), of probe_raises probe_time]
      health_check_isolated [OF d b cur(2), of probe_raises probe_time]
      health_check_isolated [OF d c cur(3), of probe_raises probe_time]
    by (simp add: names probe_raises_def probe_time_def)
qed

subsection \<open>A failed execution marks the service offline\<close>

lemma checkServer_offline:
  assumes "\<not> (fst entry = n \<and> healthCheck (snd entry) = Resolved True)"
    and "case map_of (fst acc) n of None \<Rightarrow> False | Some status \<Rightarrow> \<not> online status"
  shows "case map_of (fst (checkServer healthCheck newDate entry acc)) n of
           None \<Rightarrow> False | Some status \<Rightarrow> \<not> online status"
proof (cases "n = fst entry")
  case False
  then show ?thesis using assms(2) by (simp add: checkServer_other)
next
  case True
  obtain server where entry: "entry = (n, server)" using True by (cases entry) simp
  obtain statuses probed where acc: "acc = (statuses, probed)" by (cases acc)
  obtain status where cur: "map_of statuses n = Some status" and off: "\<not> online status"
    using assms(2) acc by (cases "map_of statuses n") simp_all
  have "healthCheck server \<noteq> Resolved True" using assms(1) entry by simp
  then show ?thesis
    unfolding entry acc
    by (cases "healthCheck server") (simp_all add: checkServer_own cur)
qed

lemma fold_checkServer_offline:
  assumes "\<not> list_ex (\<lambda>entry. fst entry = n \<and> healthCheck (snd entry) = Resolved True) entries"
    and "case map_of (fst acc) n of None \<Rightarrow> False | Some status \<Rightarrow> \<not> online status"
  shows "case map_of (fst (fold (checkServer healthCheck newDate) entries acc)) n of
           None \<Rightarrow> False | Some status \<Rightarrow> \<not> online status"
  using assms
proof (induction entries arbitrary: acc)
  case Nil
  then show ?case by simp
next
  case (Cons entry entries)
  have here: "\<not> (fst entry = n \<and> healthCheck (snd entry) = Resolved True)"
    and rest: "\<not> list_ex (\<lambda>entry. fst entry = n \<and> healthCheck (snd entry) = Resolved True) entries"
    using Cons.prems(1) by simp_all
  have "case map_of (fst (checkServer healthCheck newDate entry acc)) n of
          None \<Rightarrow> False | Some status \<Rightarrow> \<not> online status"
    using here Cons.prems(2) by (rule checkServer_offline)
  with rest show ?case using Cons.IH by simp
qed

lemma performHealthCheck_offline:
  assumes "\<not> list_ex (\<lambda>entry. fst entry = n \<and> healthCheck (snd entry) = Resolved True) (servers reg)"
    and "cached_offline n reg"
  shows "cached_offline n (fst (performHealthCheck healthCheck newDate reg))"
proof -
  obtain statuses probed where f:
    "fold (checkServer healthCheck newDate) (servers reg) (serverStatuses reg, []) = (statuses, probed)"
    by (cases "fold (checkServer healthCheck newDate) (servers reg) (serverStatuses reg, [])")
  have "case map_of (fst (serverStatuses reg, [] :: string list)) n of
          None \<Rightarrow> False | Some status \<Rightarrow> \<not> online status"
    using assms(2) by (simp add: cached_offline_def getServerStatus_def)
  from fold_checkServer_offline [OF assms(1) this, of newDate]
  show ?thesis by (simp add: f cached_offline_def getServerStatus_def performHealthCheck_def)
qed

lemma executeTool_catch_offline:
  assumes "cached_offline n reg"
  shows "cached_offline n (snd (executeTool_catch env serverName server err reg))"
  using assms
  by (cases "getStatus_catch env server")
     (simp_all add: executeTool_catch_def cached_offline_def status_updateServerStatus)

lemma executeTool_begin_offline:
  assumes "cached_offline n reg"
  shows "cached_offline n (fst (snd (executeTool_begin env serverName toolName params reg)))"
proof (cases "map_of (servers reg) serverName")
  case None
  then show ?thesis using assms by (simp add: executeTool_begin_def getServer_def)
next
  case (Some server)
  show ?thesis
  proof (cases "getStatus_try env server")
    case (Inl e)
    then show ?thesis
      using Some executeTool_catch_offline [OF assms, of env serverName server e]
      by (auto simp: executeTool_begin_def getServer_def split: prod.splits)
  next
    case (Inr status)
    then show ?thesis
      using Some assms
        executeTool_catch_offline [OF assms, of env serverName server "ServerUnavailable serverName"]
      by (auto simp: executeTool_begin_def getServer_def split: prod.splits)
  qed
qed

lemma executeTool_resume_offline:
  assumes "cached_offline n reg"
    and "\<not> (its_serverName call = n \<and>
            (case fst (executeTool_resume call reg) of Inl err \<Rightarrow> False | Inr result \<Rightarrow> True))"
  shows "cached_offline n (snd (executeTool_resume call reg))"
proof (cases "server_executeTool (its_env call) (its_server call) (its_toolName call) (its_params call)")
  case (Resolved result)
  then have "its_serverName call \<noteq> n"
    using assms(2) by (simp add: executeTool_resume_def Let_def)
  then show ?thesis
    using assms(1) Resolved
    by (simp add: executeTool_resume_def Let_def cached_offline_def status_updateServerStatus)
next
  case (Rejected err)
  then show ?thesis
    using executeTool_catch_offline [OF assms(1), of "its_env call" "its_serverName call"
        "its_server call" err]
    by (auto simp: executeTool_resume_def Let_def split: prod.splits)
qed

lemma register_offline:
  assumes "cached_offline n reg" and "name \<noteq> n"
  shows "cached_offline n (snd (register getStatus name server reg))"
  using assms
  by (cases "getStatus server")
     (simp_all add: register_def Let_def cached_offline_def getServerStatus_def update_conv')

lemma step_offline:
  assumes "cached_offline n (registry sys)" and "\<not> ends_offline n op sys"
  shows "cached_offline n (registry (step op sys))"
proof (cases op)
  case (Register getStatus name server)
  then show ?thesis using assms by (simp add: register_offline)
next
  case (Unregister name)
  then show ?thesis
    using assms by (simp add: cached_offline_def getServerStatus_def unregister_def delete_conv')
next
  case (ExecuteTool env serverName toolName params)
  then show ?thesis
    using executeTool_begin_offline [OF assms(1), of env serverName toolName params]
    by (auto split: prod.splits begun.splits)
next
  case (Settle k)
  show ?thesis
  proof (cases "k < length (suspended sys)")
    case False
    then show ?thesis using assms(1) Settle by simp
  next
    case True
    then show ?thesis
      using assms Settle executeTool_resume_offline [of n "registry sys" "suspended sys ! k"]
      by simp
  qed
next
  case (HealthCheck healthCheck newDate)
  then show ?thesis
    using assms performHealthCheck_offline [of n healthCheck "registry sys" newDate] by simp
qed

lemma run_offline:
  "cached_offline n (registry sys) \<Longrightarrow> stays_quiet n ops sys \<Longrightarrow>
   cached_offline n (registry (run ops sys))"
  unfolding run_def
proof (induction ops arbitrary: sys)
  case Nil
  then show ?case by simp
next
  case (Cons op ops)
  have "cached_offline n (registry (step op sys))" using Cons.prems by (simp add: step_offline)
  moreover have "stays_quiet n ops (step op sys)" using Cons.prems by simp
  ultimately show ?case using Cons.IH by simp
qed

text \<open>
  Claim C2 says that a failed execution sets the cached status to \<open>online = false\<close>, with
  the failure message as \<open>error\<close> and the current time as \<open>lastUpdate\<close>, and that the
  service stays offline until the next successful probe or call. The code does not
  write \<open>lastUpdate\<close>, and a registration of the name replaces the cached status too.
  As the code has it: when the handle's \<open>executeTool\<close> fails and the handle answers its
  status in the \<open>catch\<close> block, \<open>executeTool\<close> throws the same error and the cached status
  becomes that status with \<open>online = false\<close> and the failure message as \<open>error\<close>;
  \<open>lastUpdate\<close> is the one of the handle's status. The cached status then stays offline
  through every run of operations, with whatever calls suspended, in which the name is
  neither registered again nor unregistered, no call for it ends with a result and no
  probe of it answers \<open>true\<close>. Nothing is said here of a handle whose \<open>getStatus()\<close>
  throws in the \<open>catch\<close> block.
\<close>

theorem execution_failure_marks_offline:
  assumes "map_of (servers reg) serverName = Some server"
    and "getStatus_try env server = Inr status"
    and "online status"
    and "server_executeTool env server toolName params = Rejected err"
    and "getStatus_catch env server = Inr status'"
    and "reg' = fst (snd (executeTool env serverName toolName params reg))"
  shows "fst (executeTool env serverName toolName params reg) = Inl err
       \<and> getServerStatus serverName reg' =
           Some (status'\<lparr>online := False, error := Some err\<rparr>)
       \<and> (stays_quiet serverName ops \<lparr>registry = reg', suspended = calls\<rparr> \<longrightarrow>
            cached_offline serverName
              (registry (run ops \<lparr>registry = reg', suspended = calls\<rparr>)))"
proof -
  have r: "executeTool env serverName toolName params reg =
      (Inl err,
       updateServerStatus serverName (status'\<lparr>online := False, error := Some err\<rparr>) reg,
       [(server, toolName, params)])"
    by (simp add: executeTool_rejected [OF assms(1,2,3,4)] executeTool_catch_answers [OF assms(5)])
  have st: "getServerStatus serverName reg' =
           Some (status'\<lparr>online := False, error := Some err\<rparr>)"
    unfolding assms(6) r by (simp add: status_updateServerStatus)
  then have "cached_offline serverName (registry \<lparr>registry = reg', suspended = calls\<rparr>)"
    by (simp add: cached_offline_def)
  then have "stays_quiet serverName ops \<lparr>registry = reg', suspended = calls\<rparr> \<longrightarrow>
      cached_offline serverName (registry (run ops \<lparr>registry = reg', suspended = calls\<rparr>))"
    by (simp add: run_offline)
  then show ?thesis using r st by simp
qed

text \<open>
  What the theorem leaves out: in \<open>unreadable_call\<close> the backend fails and the handle's
  \<open>getStatus()\<close> then throws in the \<open>catch\<close> block. The error of \<open>getStatus()\<close> is the one
  thrown, and the registry is left as it was, with \<open>svc-a\<close> cached online.
\<close>

lemma unreadable_call_result:
  "executeTool unreadable_call ''svc-a'' ''op1'' ''{}'' svc_registered =
     (Inl (Other ''status unavailable''), svc_registered, [(''h1'', ''op1'', ''{}'')])"
proof -
  have t: "getStatus_try unreadable_call ''h1'' = Inr idle_status" by (simp add: call_defs)
  have r: "server_executeTool unreadable_call ''h1'' ''op1'' ''{}'' = Rejected (Other ''boom'')"
    by (simp add: call_defs)
  have c: "getStatus_catch unreadable_call ''h1'' = Inl (Other ''status unavailable'')"
    by (simp add: call_defs)
  show ?thesis
    by (simp add: executeTool_rejected [OF svc_registered_found t online_idle r]
          executeTool_catch_throws [OF c])
qed

text \<open>
  Against C2 as stated: the call starts at time 1000 and fails; the \<open>lastUpdate\<close> cached
  afterwards is 5, the one of the handle's status. And the service is cached offline
  after the failure, yet registering the name again, with no probe and no call, leaves
  it cached online.
\<close>

theorem execution_failure_keeps_handle_lastUpdate:
  "fst (executeTool failing_call ''svc-a'' ''op1'' ''{}'' svc_registered) = Inl (Other ''boom'')
   \<and> startTime failing_call = 1000
   \<and> map_option lastUpdate
        (getServerStatus ''svc-a''
           (fst (snd (executeTool failing_call ''svc-a'' ''op1'' ''{}'' svc_registered)))) = Some 5
   \<and> cached_offline ''svc-a''
        (fst (snd (executeTool failing_call ''svc-a'' ''op1'' ''{}'' svc_registered)))
   \<and> map_option online
        (getServerStatus ''svc-a''
           (snd (register report_idle ''svc-a'' ''h1''
              (fst (snd (executeTool failing_call ''svc-a'' ''op1'' ''{}'' svc_registered)))))) =
       Some True"
  by (simp add: failing_call_result)
     (simp add: getServerStatus_def cached_offline_def idle_status_def failing_call_def
        register_def report_idle_def)

text \<open>
  After the failure: a probe that raises, a second call that starts, the registration
  of another service while that call is suspended, and the failure of the second call
  leave \<open>svc-a\<close> offline.
\<close>

theorem execution_failure_marks_offline_witness:
  "map_of (servers svc_registered) ''svc-a'' = Some ''h1''
   \<and> getStatus_try failing_call ''h1'' = Inr idle_status \<and> online idle_status
   \<and> server_executeTool failing_call ''h1'' ''op1'' ''{}'' = Rejected (Other ''boom'')
   \<and> getStatus_catch failing_call ''h1'' = Inr idle_status
   \<and> fst (executeTool failing_call ''svc-a'' ''op1'' ''{}'' svc_registered) = Inl (Other ''boom'')
   \<and> getServerStatus ''svc-a'' svc_failed =
       Some (idle_status\<lparr>online := False, error := Some (Other ''boom'')\<rparr>)
   \<and> stays_quiet ''svc-a''
        [HealthCheck probe_raises probe_time,
         ExecuteTool failing_call ''svc-a'' ''op1'' ''{}'',
         Register report_idle ''svc-b'' ''h2'',
         Settle 0] \<lparr>registry = svc_failed, suspended = []\<rparr>
   \<and> cached_offline ''svc-a''
        (registry (run [HealthCheck probe_raises probe_time,
              ExecuteTool failing_call ''svc-a'' ''op1'' ''{}'',
              Register report_idle ''svc-b'' ''h2'',
              Settle 0] \<lparr>registry = svc_failed, suspended = []\<rparr>))"
proof -
  let ?ops = "[HealthCheck probe_raises probe_time,
         ExecuteTool failing_call ''svc-a'' ''op1'' ''{}'',
         Register report_idle ''svc-b'' ''h2'',
         Settle 0] :: (string, string, string) operation list"
  let ?sys = "\<lparr>registry = svc_failed, suspended = []\<rparr> :: (string, string, string) system"
  have after: "svc_failed = fst (snd (executeTool failing_call ''svc-a'' ''op1'' ''{}'' svc_registered))"
    by (simp add: failing_call_result svc_failed_eq)
  let ?offline = "idle_status\<lparr>online := False, lastUpdate := 4000,
                     error := Some (Other ''timeout'')\<rparr>"
  let ?call = "\<lparr>its_env = failing_call, its_serverName = ''svc-a'', its_server = ''h1'',
                its_toolName = ''op1'', its_params = ''{}''\<rparr>"
  let ?s1 = "\<lparr>registry = \<lparr>servers = [(''svc-a'', ''h1'')], serverStatuses = [(''svc-a'', ?offline)]\<rparr>,
              suspended = []\<rparr> :: (string, string, string) system"
  let ?s2 = "\<lparr>registry = \<lparr>servers = [(''svc-a'', ''h1'')], serverStatuses = [(''svc-a'', ?offline)]\<rparr>,
              suspended = [?call]\<rparr>"
  let ?s3 = "\<lparr>registry =
               \<lparr>servers = [(''svc-a'', ''h1''), (''svc-b'', ''h2'')],
                serverStatuses = [(''svc-a'', ?offline), (''svc-b'', idle_status)]\<rparr>,
              suspended = [?call]\<rparr>"
  have tick: "step (HealthCheck probe_raises probe_time) ?sys = ?s1"
    by (simp add: svc_failed_eq performHealthCheck_def checkServer_def probe_raises_def
          probe_time_def idle_status_def)
  have started: "step (ExecuteTool failing_call ''svc-a'' ''op1'' ''{}'') ?s1 = ?s2"
    by (simp add: executeTool_begin_def getServer_def failing_call_try online_idle)
  have registered: "step (Register report_idle ''svc-b'' ''h2'') ?s2 = ?s3"
    by (simp add: register_def report_idle_def)
  have q1: "\<not> ends_offline ''svc-a'' (HealthCheck probe_raises probe_time) ?sys"
    by (simp add: svc_failed_eq probe_raises_def)
  have q4: "\<not> ends_offline ''svc-a'' (Settle 0) ?s3"
    by (simp add: executeTool_resume_def Let_def failing_call_rejected split: prod.splits)
  have quiet: "stays_quiet ''svc-a'' ?ops ?sys"
    using q1 q4 by (simp only: stays_quiet.simps tick started registered ends_offline.simps) simp
  show ?thesis
    using quiet svc_registered_found failing_call_try online_idle failing_call_rejected
      failing_call_catch
      execution_failure_marks_offline [OF svc_registered_found failing_call_try online_idle failing_call_rejected
        failing_call_catch after, of ?ops "[]"]
    by simp
qed

end
